theory Spec2Isabelle
  imports Complex_Main "HOL-Library.Sublist"
begin

section \<open>Threshold profiles (thresholds.py)\<close>

text \<open>
  The three inclusive angle bands of \<^verbatim>\<open>thresholds['HIP_KNEE_VERT']\<close> and the scalar limits
  of a leg-raise profile. Integer literals of the source are \<open>int\<close>, float literals are
  \<open>rat\<close> (exact arithmetic: floating-point rounding is not modelled).
\<close>

record bands =
  NORMAL :: "int \<times> int"
  TRANS :: "int \<times> int"
  PASS :: "int \<times> int"

record thresholds =
  HIP_KNEE_VERT :: bands
  KNEE_LOCK_MAX :: int
  TORSO_TILT_MAX :: int
  REP_MIN_RANGE :: int
  HOLD_SEC :: rat
  OFFSET_THRESH :: rat
  INACTIVE_THRESH :: rat
  CNT_FRAME_THRESH :: int

definition get_thresholds_leg_raises_beginner :: thresholds where
  "get_thresholds_leg_raises_beginner =
     \<lparr> HIP_KNEE_VERT = \<lparr> NORMAL = (0, 15), TRANS = (16, 60), PASS = (61, 95) \<rparr>,
       KNEE_LOCK_MAX = 20,
       TORSO_TILT_MAX = 25,
       REP_MIN_RANGE = 35,
       HOLD_SEC = 1,
       OFFSET_THRESH = 35,
       INACTIVE_THRESH = 15,
       CNT_FRAME_THRESH = 50 \<rparr>"

definition get_thresholds_leg_raises_pro :: thresholds where
  "get_thresholds_leg_raises_pro =
     \<lparr> HIP_KNEE_VERT = \<lparr> NORMAL = (0, 20), TRANS = (21, 75), PASS = (76, 95) \<rparr>,
       KNEE_LOCK_MAX = 15,
       TORSO_TILT_MAX = 20,
       REP_MIN_RANGE = 40,
       HOLD_SEC = 3 / 2,
       OFFSET_THRESH = 35,
       INACTIVE_THRESH = 15,
       CNT_FRAME_THRESH = 50 \<rparr>"

section \<open>Session state (ProcessFrame.state_tracker)\<close>

datatype rep_state = S1 | S2 | S3

text \<open>
  The value of \<^verbatim>\<open>play_sound\<close>: \<^verbatim>\<open>None\<close> is \<open>None\<close>, \<^verbatim>\<open>'incorrect'\<close> is \<open>Incorrect\<close>,
  \<^verbatim>\<open>'reset_counters'\<close> is \<open>ResetCounters\<close> and \<^verbatim>\<open>str(CORRECT_COUNT)\<close> is \<open>Count\<close>.
\<close>

datatype event = Incorrect | ResetCounters | Count int

datatype error = TypeError

text \<open>
  The dictionary \<^verbatim>\<open>state_tracker\<close>, one field per key. \<^verbatim>\<open>DISPLAY_TEXT\<close> and
  \<^verbatim>\<open>COUNT_FRAMES\<close> are numpy arrays of shape (4,): lists whose length stays 4
  (part of \<open>banner_inv\<close> below). \<^verbatim>\<open>COUNT_FRAMES\<close> has dtype int64: an entry is an \<open>int\<close>
  in the int64 range, and the one arithmetic operation of the source on it, the increment
  of line 428, wraps around (\<open>int64\<close> below). The two rep counters are Python integers.
\<close>

record tracker =
  state_seq :: "rep_state list"
  prev_state :: "rep_state option"
  curr_state :: "rep_state option"
  s3_enter_time :: "rat option"
  s3_hold_ok :: bool
  rep_min_angle :: "int option"
  rep_max_angle :: "int option"
  start_inactive_time :: rat
  INACTIVE_TIME :: rat
  start_inactive_time_front :: rat
  INACTIVE_TIME_FRONT :: rat
  DISPLAY_TEXT :: "bool list"
  COUNT_FRAMES :: "int list"
  INCORRECT_POSTURE :: bool
  CORRECT_COUNT :: int
  INCORRECT_COUNT :: int

text \<open>The state built by \<^verbatim>\<open>__init__\<close>, at clock reading \<open>clk\<close>.\<close>

definition init_tracker :: "rat \<Rightarrow> tracker" where
  "init_tracker clk =
     \<lparr> state_seq = [], prev_state = None, curr_state = None,
       s3_enter_time = None, s3_hold_ok = False,
       rep_min_angle = None, rep_max_angle = None,
       start_inactive_time = clk, INACTIVE_TIME = 0,
       start_inactive_time_front = clk, INACTIVE_TIME_FRONT = 0,
       DISPLAY_TEXT = replicate 4 False, COUNT_FRAMES = replicate 4 0,
       INCORRECT_POSTURE = False,
       CORRECT_COUNT = 0, INCORRECT_COUNT = 0 \<rparr>"

section \<open>One frame of input\<close>

text \<open>
  What \<^verbatim>\<open>process\<close> reads from the outside for one frame. The pose estimator and the
  geometry helpers of \<^verbatim>\<open>utils\<close> (\<^verbatim>\<open>find_angle\<close>, \<^verbatim>\<open>get_landmark_features\<close>) are not part
  of the sources, so their results are inputs:
  \<^item> \<open>landmarks\<close>: \<^verbatim>\<open>keypoints.pose_landmarks\<close> is truthy;
  \<^item> \<open>offset_angle\<close>: \<^verbatim>\<open>find_angle(l_sh, r_sh, nose_coord)\<close>;
  \<^item> \<open>hip_angle\<close>: \<^verbatim>\<open>find_angle(knee, sh, hip)\<close>;
  \<^item> \<open>knee_internal\<close>: \<^verbatim>\<open>find_angle(hip, ankle, knee)\<close>;
  \<^item> \<open>torso_tilt\<close>: \<^verbatim>\<open>find_angle(sh, [hip[0], 0], hip)\<close>;
  \<^item> \<open>now\<close>: the reading of \<^verbatim>\<open>time.perf_counter()\<close> while the frame is processed
    (one reading per frame: the calls of one \<^verbatim>\<open>process\<close> invocation return the same
    value).
  Drawing on the frame has no effect on the state or on the event and is left out.
\<close>

record frame =
  landmarks :: bool
  offset_angle :: rat
  hip_angle :: rat
  knee_internal :: rat
  torso_tilt :: rat
  now :: rat

text \<open>Python's \<^verbatim>\<open>int(x)\<close> on a float: truncation towards zero.\<close>

definition py_int :: "rat \<Rightarrow> int" where
  "py_int x = (if 0 \<le> x then \<lfloor>x\<rfloor> else \<lceil>x\<rceil>)"

definition hip_vertical :: "frame \<Rightarrow> rat" where
  "hip_vertical fr = 180 - hip_angle fr"

definition knee_flexion :: "frame \<Rightarrow> int" where
  "knee_flexion fr = max 0 (180 - py_int (knee_internal fr))"

section \<open>Helpers of ProcessFrame\<close>

definition get_state :: "thresholds \<Rightarrow> int \<Rightarrow> rep_state option" where
  "get_state th a =
     (let band = HIP_KNEE_VERT th in
      if fst (NORMAL band) \<le> a \<and> a \<le> snd (NORMAL band) then Some S1
      else if fst (TRANS band) \<le> a \<and> a \<le> snd (TRANS band) then Some S2
      else if fst (PASS band) \<le> a \<and> a \<le> snd (PASS band) then Some S3
      else None)"

text \<open>\<^verbatim>\<open>_update_state_sequence\<close>, on the list \<^verbatim>\<open>state_tracker['state_seq']\<close>.\<close>

definition update_state_sequence :: "rep_state option \<Rightarrow> rep_state list \<Rightarrow> rep_state list" where
  "update_state_sequence st seq =
     (if st = Some S2 then
        (if (S3 \<notin> set seq \<and> count_list seq S2 = 0) \<or> (S3 \<in> set seq \<and> count_list seq S2 = 1)
         then seq @ [S2] else seq)
      else if st = Some S3 then
        (if S3 \<notin> set seq \<and> S2 \<in> set seq then seq @ [S3] else seq)
      else seq)"

definition reset_live_flags :: "tracker \<Rightarrow> tracker" where
  "reset_live_flags t =
     t\<lparr> DISPLAY_TEXT := map (\<lambda>_. False) (DISPLAY_TEXT t),
        COUNT_FRAMES := map (\<lambda>_. 0) (COUNT_FRAMES t),
        INCORRECT_POSTURE := False,
        s3_enter_time := None,
        s3_hold_ok := False,
        rep_min_angle := None,
        rep_max_angle := None \<rparr>"

definition hard_reset_all :: "rat \<Rightarrow> tracker \<Rightarrow> tracker" where
  "hard_reset_all clk t =
     (reset_live_flags
        (t\<lparr> CORRECT_COUNT := 0, INCORRECT_COUNT := 0,
            state_seq := [], prev_state := None, curr_state := None \<rparr>))
      \<lparr> INACTIVE_TIME := 0, start_inactive_time := clk,
        INACTIVE_TIME_FRONT := 0, start_inactive_time_front := clk \<rparr>"

section \<open>ProcessFrame.process, stage by stage\<close>

text \<open>No landmarks (lines 189-205): side-view inactivity accounting only.\<close>

definition no_landmarks :: "thresholds \<Rightarrow> frame \<Rightarrow> tracker \<Rightarrow> tracker \<times> event option" where
  "no_landmarks th fr t =
     (let end_time = now fr;
          t1 = t\<lparr> INACTIVE_TIME := INACTIVE_TIME t + (end_time - start_inactive_time t),
                  start_inactive_time := end_time \<rparr>
      in if INACTIVE_TIME t1 \<ge> INACTIVE_THRESH th
         then (hard_reset_all (now fr) t1, Some ResetCounters)
         else (t1, None))"

text \<open>Camera not aligned (lines 222-252).\<close>

definition misaligned :: "thresholds \<Rightarrow> frame \<Rightarrow> tracker \<Rightarrow> tracker \<times> event option" where
  "misaligned th fr t =
     (let end_time = now fr;
          t1 = t\<lparr> INACTIVE_TIME_FRONT :=
                    INACTIVE_TIME_FRONT t + (end_time - start_inactive_time_front t),
                  start_inactive_time_front := end_time \<rparr>;
          (t2, play_sound) =
             (if INACTIVE_TIME_FRONT t1 \<ge> INACTIVE_THRESH th
              then (hard_reset_all (now fr) t1, Some ResetCounters)
              else (t1, None))
      in (t2\<lparr> INACTIVE_TIME := 0, start_inactive_time := now fr \<rparr>, play_sound))"

text \<open>Per-rep minimum and maximum of the hip angle (lines 300-308). In the \<^verbatim>\<open>else\<close>
  branch \<^verbatim>\<open>max(None, ang)\<close> raises \<^verbatim>\<open>TypeError\<close> when only the minimum is set.\<close>

definition track_range :: "int \<Rightarrow> tracker \<Rightarrow> error + tracker" where
  "track_range ang t =
     (if S2 \<in> set (state_seq t) then
        (case rep_min_angle t of
           None \<Rightarrow> Inr (t\<lparr> rep_min_angle := Some ang, rep_max_angle := Some ang \<rparr>)
         | Some mn \<Rightarrow>
             (case rep_max_angle t of
                None \<Rightarrow> Inl TypeError
              | Some mx \<Rightarrow>
                  Inr (t\<lparr> rep_min_angle := Some (min mn ang),
                          rep_max_angle := Some (max mx ang) \<rparr>)))
      else Inr t)"

text \<open>Hold timing at s3 (lines 310-320), with the source's fixed target.\<close>

definition TARGET_HOLD :: rat where
  "TARGET_HOLD = 5"

definition hold_timing :: "frame \<Rightarrow> rep_state option \<Rightarrow> tracker \<Rightarrow> tracker" where
  "hold_timing fr current_state t =
     (if current_state = Some S3 then
        (case s3_enter_time t of
           None \<Rightarrow> t\<lparr> s3_enter_time := Some (now fr) \<rparr>
         | Some t0 \<Rightarrow> if now fr - t0 \<ge> TARGET_HOLD then t\<lparr> s3_hold_ok := True \<rparr> else t)
      else t\<lparr> s3_enter_time := None \<rparr>)"

text \<open>Suppression of the form cues while in s3 (lines 322-328).\<close>

definition suppress_form_cues :: "rep_state option \<Rightarrow> tracker \<Rightarrow> tracker" where
  "suppress_form_cues current_state t =
     (if current_state = Some S3 then
        t\<lparr> DISPLAY_TEXT := (DISPLAY_TEXT t)[0 := False, 1 := False],
           COUNT_FRAMES := (COUNT_FRAMES t)[0 := 0, 1 := 0] \<rparr>
      else t)"

text \<open>Rep resolution on an s1 frame (lines 334-364), in its three steps: the drop check
  (336-338), the outcome (340-360) and the clearing of the per-rep state (362-364).\<close>

definition drop_check :: "tracker \<Rightarrow> tracker" where
  "drop_check t =
     (if prev_state t = Some S3
      then t\<lparr> DISPLAY_TEXT := (DISPLAY_TEXT t)[3 := True], INCORRECT_POSTURE := True \<rparr>
      else t)"

definition range_ok :: "thresholds \<Rightarrow> tracker \<Rightarrow> bool" where
  "range_ok th t =
     (case rep_min_angle t of
        None \<Rightarrow> False
      | Some mn \<Rightarrow>
          (case rep_max_angle t of
             None \<Rightarrow> False
           | Some mx \<Rightarrow> mx - mn \<ge> REP_MIN_RANGE th))"

definition rep_correct :: "thresholds \<Rightarrow> tracker \<Rightarrow> bool" where
  "rep_correct th t \<longleftrightarrow>
     (length (state_seq t) = 3 \<and> state_seq t = [S2, S3, S2]) \<and>
     \<not> INCORRECT_POSTURE t \<and> s3_hold_ok t \<and> range_ok th t"

definition rep_outcome :: "thresholds \<Rightarrow> tracker \<Rightarrow> tracker \<times> event option" where
  "rep_outcome th t =
     (if rep_correct th t then
        (t\<lparr> CORRECT_COUNT := CORRECT_COUNT t + 1 \<rparr>, Some (Count (CORRECT_COUNT t + 1)))
      else
        (let t1 = (if S2 \<in> set (state_seq t) \<and> S3 \<notin> set (state_seq t)
                   then t\<lparr> DISPLAY_TEXT := (DISPLAY_TEXT t)[2 := True] \<rparr> else t)
         in (t1\<lparr> INCORRECT_COUNT := INCORRECT_COUNT t1 + 1 \<rparr>, Some Incorrect)))"

definition clear_rep :: "tracker \<Rightarrow> tracker" where
  "clear_rep t = reset_live_flags (t\<lparr> state_seq := [] \<rparr>)"

definition rep_resolution :: "thresholds \<Rightarrow> tracker \<Rightarrow> tracker \<times> event option" where
  "rep_resolution th t =
     (let (t1, play_sound) = rep_outcome th (drop_check t) in (clear_rep t1, play_sound))"

text \<open>Live feedback on a frame that is not s1 (lines 366-380).\<close>

definition live_feedback :: "thresholds \<Rightarrow> frame \<Rightarrow> rep_state option \<Rightarrow> tracker \<Rightarrow> tracker" where
  "live_feedback th fr current_state t =
     (let t1 = (if current_state \<noteq> Some S3 \<and> knee_flexion fr > KNEE_LOCK_MAX th
                then t\<lparr> DISPLAY_TEXT := (DISPLAY_TEXT t)[0 := True], INCORRECT_POSTURE := True \<rparr>
                else t);
          t2 = (if current_state \<noteq> Some S3 \<and> torso_tilt fr > of_int (TORSO_TILT_MAX th)
                then t1\<lparr> DISPLAY_TEXT := (DISPLAY_TEXT t1)[1 := True], INCORRECT_POSTURE := True \<rparr>
                else t1);
          pass_lo = fst (PASS (HIP_KNEE_VERT th))
      in if current_state = Some S2 \<and> hip_vertical fr < of_int pass_lo
         then t2\<lparr> DISPLAY_TEXT := (DISPLAY_TEXT t2)[2 := True] \<rparr>
         else t2)"

definition counting_feedback ::
  "thresholds \<Rightarrow> frame \<Rightarrow> rep_state option \<Rightarrow> tracker \<Rightarrow> tracker \<times> event option" where
  "counting_feedback th fr current_state t =
     (if current_state = Some S1 then rep_resolution th t
      else (live_feedback th fr current_state t, None))"

text \<open>Side-view inactivity (lines 382-395).\<close>

definition side_inactivity ::
  "thresholds \<Rightarrow> frame \<Rightarrow> tracker \<times> event option \<Rightarrow> tracker \<times> event option" where
  "side_inactivity th fr tp =
     (let (t, play_sound) = tp in
      if curr_state t = prev_state t then
        (let end_time = now fr;
             t1 = t\<lparr> INACTIVE_TIME := INACTIVE_TIME t + (end_time - start_inactive_time t),
                     start_inactive_time := end_time \<rparr>
         in if INACTIVE_TIME t1 \<ge> INACTIVE_THRESH th
            then (hard_reset_all (now fr) t1, Some ResetCounters)
            else (t1, play_sound))
      else (t\<lparr> start_inactive_time := now fr, INACTIVE_TIME := 0 \<rparr>, play_sound))"

text \<open>The value an int64 array entry holds after \<open>x\<close> has been stored in it by an
  arithmetic operation of numpy: two's complement wrap-around into the range from
  \<open>- 2 ^ 63\<close> to \<open>2 ^ 63 - 1\<close>.\<close>

definition int64 :: "int \<Rightarrow> int" where
  "int64 x = (x + 2 ^ 63) mod 2 ^ 64 - 2 ^ 63"

text \<open>Banner counters and their time to live (lines 427-435). The boolean-mask updates of
  numpy become maps over the zipped arrays; both arrays keep their four entries, so the
  masks fit. The increment of line 428 is an int64 addition and wraps around.\<close>

definition banner_ttl :: "thresholds \<Rightarrow> tracker \<Rightarrow> tracker" where
  "banner_ttl th t =
     (let counted = map (\<lambda>(c, d). if d then int64 (c + 1) else c)
                        (zip (COUNT_FRAMES t) (DISPLAY_TEXT t));
          ttl = CNT_FRAME_THRESH th;
          mask = map (\<lambda>c. c > ttl) counted
      in t\<lparr> DISPLAY_TEXT := map (\<lambda>(d, m). if m then False else d) (zip (DISPLAY_TEXT t) mask),
            COUNT_FRAMES := map (\<lambda>(c, m). if m then 0 else c) (zip counted mask) \<rparr>)"

text \<open>The aligned path up to the counting (lines 254-328): the front timer is reset, the
  frame is classified, the sequence, the range and the hold timer are updated and the form
  cues are suppressed in s3. The result is the state in which line 334 is reached.\<close>

definition classify_track :: "thresholds \<Rightarrow> frame \<Rightarrow> tracker \<Rightarrow> error + tracker" where
  "classify_track th fr t =
     (let t1 = t\<lparr> INACTIVE_TIME_FRONT := 0, start_inactive_time_front := now fr \<rparr>;
          current_state = get_state th (py_int (hip_vertical fr));
          t2 = t1\<lparr> curr_state := current_state \<rparr>;
          t3 = t2\<lparr> state_seq := update_state_sequence current_state (state_seq t2) \<rparr>
      in case track_range (py_int (hip_vertical fr)) t3 of
           Inl e \<Rightarrow> Inl e
         | Inr t4 \<Rightarrow> Inr (suppress_form_cues current_state (hold_timing fr current_state t4)))"

text \<open>The aligned path (lines 254-440).\<close>

definition aligned :: "thresholds \<Rightarrow> frame \<Rightarrow> tracker \<Rightarrow> error + tracker \<times> event option" where
  "aligned th fr t =
     (let current_state = get_state th (py_int (hip_vertical fr))
      in case classify_track th fr t of
           Inl e \<Rightarrow> Inl e
         | Inr t5 \<Rightarrow>
             (let (t6, play_sound) = side_inactivity th fr (counting_feedback th fr current_state t5);
                  t7 = banner_ttl th t6
              in Inr (t7\<lparr> prev_state := current_state \<rparr>, play_sound)))"

definition process :: "thresholds \<Rightarrow> frame \<Rightarrow> tracker \<Rightarrow> error + tracker \<times> event option" where
  "process th fr t =
     (if \<not> landmarks fr then Inr (no_landmarks th fr t)
      else if offset_angle fr > OFFSET_THRESH th then Inr (misaligned th fr t)
      else aligned th fr t)"

text \<open>A run of frames: the state after the last frame and the events in order. An
  exception ends the run.\<close>

fun run_frames ::
  "thresholds \<Rightarrow> frame list \<Rightarrow> tracker \<Rightarrow> error + tracker \<times> event option list" where
  "run_frames th [] t = Inr (t, [])"
| "run_frames th (fr # frs) t =
     (case process th fr t of
        Inl e \<Rightarrow> Inl e
      | Inr (t1, ev) \<Rightarrow>
          (case run_frames th frs t1 of
             Inl e \<Rightarrow> Inl e
           | Inr (t2, evs) \<Rightarrow> Inr (t2, ev # evs)))"

section \<open>Predicates of the statements\<close>

text \<open>The state-sequence updater fed with a sequence of classified states, from the
  empty \<^verbatim>\<open>state_seq\<close>.\<close>

definition feed_states :: "rep_state option list \<Rightarrow> rep_state list" where
  "feed_states sts = foldl (\<lambda>seq st. update_state_sequence st seq) [] sts"

text \<open>The class of a frame: the state its driving angle selects (line 296).\<close>

definition frame_class :: "thresholds \<Rightarrow> frame \<Rightarrow> rep_state option" where
  "frame_class th fr = get_state th (py_int (hip_vertical fr))"

text \<open>The frames on which the rep resolution runs: landmarks present, camera aligned and
  the driving angle in the NORMAL band.\<close>

definition resolves :: "thresholds \<Rightarrow> frame \<Rightarrow> bool" where
  "resolves th fr \<longleftrightarrow>
     landmarks fr \<and> \<not> offset_angle fr > OFFSET_THRESH th \<and>
     get_state th (py_int (hip_vertical fr)) = Some S1"

text \<open>The frames that reach the banner manager: landmarks present and camera aligned.\<close>

definition reaches_banners :: "thresholds \<Rightarrow> frame \<Rightarrow> bool" where
  "reaches_banners th fr \<longleftrightarrow> landmarks fr \<and> \<not> offset_angle fr > OFFSET_THRESH th"

text \<open>The condition under which \<^verbatim>\<open>_hard_reset_all\<close> is called in a frame, read off its three
  call sites: the side-view accumulator reaches the threshold on a frame without landmarks
  (line 198), the front-view accumulator reaches it on a misaligned frame (line 245), or
  the class of the frame equals the previous state and the side-view accumulator reaches it
  (lines 384-389).\<close>

definition hard_reset_fires :: "thresholds \<Rightarrow> frame \<Rightarrow> tracker \<Rightarrow> bool" where
  "hard_reset_fires th fr t =
     (if \<not> landmarks fr then
        INACTIVE_TIME t + (now fr - start_inactive_time t) \<ge> INACTIVE_THRESH th
      else if offset_angle fr > OFFSET_THRESH th then
        INACTIVE_TIME_FRONT t + (now fr - start_inactive_time_front t) \<ge> INACTIVE_THRESH th
      else
        get_state th (py_int (hip_vertical fr)) = prev_state t \<and>
        INACTIVE_TIME t + (now fr - start_inactive_time t) \<ge> INACTIVE_THRESH th)"

text \<open>The per-rep state is clear: the sequence is empty, the angle range, the hold timer,
  the hold flag and the posture flag are unset, no banner flag is set and every banner
  counter is zero.\<close>

definition rep_cleared :: "tracker \<Rightarrow> bool" where
  "rep_cleared t \<longleftrightarrow>
     state_seq t = [] \<and> rep_min_angle t = None \<and> rep_max_angle t = None \<and>
     s3_enter_time t = None \<and> \<not> s3_hold_ok t \<and> \<not> INCORRECT_POSTURE t \<and>
     list_all (\<lambda>d. \<not> d) (DISPLAY_TEXT t) \<and> list_all (\<lambda>c. c = 0) (COUNT_FRAMES t)"

text \<open>The invariant of the per-rep angle range at frame boundaries: the minimum and the
  maximum are set together, exactly while "s2" is in \<^verbatim>\<open>state_seq\<close>, and the minimum is
  at most the maximum.\<close>

definition rep_inv :: "tracker \<Rightarrow> bool" where
  "rep_inv t =
     (case rep_min_angle t of
        None \<Rightarrow> rep_max_angle t = None \<and> S2 \<notin> set (state_seq t)
      | Some mn \<Rightarrow>
          (case rep_max_angle t of
             None \<Rightarrow> False
           | Some mx \<Rightarrow> mn \<le> mx \<and> S2 \<in> set (state_seq t)))"

text \<open>The banner invariant at frame boundaries: both arrays have their four entries, a set
  flag has a counter between 1 and \<^verbatim>\<open>CNT_FRAME_THRESH\<close>, a cleared flag has counter 0.\<close>

definition banner_ok :: "int \<Rightarrow> int \<Rightarrow> bool \<Rightarrow> bool" where
  "banner_ok ttl c d = (if d then 1 \<le> c \<and> c \<le> ttl else c = 0)"

definition banner_inv :: "thresholds \<Rightarrow> tracker \<Rightarrow> bool" where
  "banner_inv th t \<longleftrightarrow>
     length (DISPLAY_TEXT t) = 4 \<and> length (COUNT_FRAMES t) = 4 \<and>
     list_all2 (banner_ok (CNT_FRAME_THRESH th)) (COUNT_FRAMES t) (DISPLAY_TEXT t)"

text \<open>Banner flag \<open>i\<close> is set before a run of frames, stays set after each of them, and the
  run raises no exception.\<close>

fun banner_stays :: "thresholds \<Rightarrow> nat \<Rightarrow> frame list \<Rightarrow> tracker \<Rightarrow> bool" where
  "banner_stays th i [] t = DISPLAY_TEXT t ! i"
| "banner_stays th i (fr # frs) t =
     (DISPLAY_TEXT t ! i \<and>
      (case process th fr t of
         Inl e \<Rightarrow> False
       | Inr (t1, ev) \<Rightarrow> banner_stays th i frs t1))"

text \<open>The banner arrays when the banner manager is reached (state \<open>w\<close>), relative to the
  start of the frame (state \<open>t\<close>): a set flag still has the counter it had, a cleared flag
  has counter 0.\<close>

definition carried :: "tracker \<Rightarrow> tracker \<Rightarrow> bool" where
  "carried t w \<longleftrightarrow>
     length (DISPLAY_TEXT w) = 4 \<and> length (COUNT_FRAMES w) = 4 \<and>
     (\<forall>i<4. COUNT_FRAMES w ! i = (if DISPLAY_TEXT w ! i then COUNT_FRAMES t ! i else 0))"

text \<open>No form violation in a frame: the knee flexion and the torso tilt are within their
  limits.\<close>

definition good_form :: "thresholds \<Rightarrow> frame \<Rightarrow> bool" where
  "good_form th fr \<longleftrightarrow>
     \<not> knee_flexion fr > KNEE_LOCK_MAX th \<and> \<not> torso_tilt fr > of_int (TORSO_TILT_MAX th)"

text \<open>A frame that reaches the classification and is classified as \<open>c\<close>.\<close>

definition in_state :: "thresholds \<Rightarrow> rep_state \<Rightarrow> frame \<Rightarrow> bool" where
  "in_state th c fr \<longleftrightarrow>
     reaches_banners th fr \<and> get_state th (py_int (hip_vertical fr)) = Some c"

text \<open>A phase of a rep: a non-empty run of frames classified as \<open>c\<close>, all of them less
  than \<^verbatim>\<open>INACTIVE_THRESH\<close> seconds after the first one (so that the inactivity watchdog
  does not fire within the phase).\<close>

definition phase :: "thresholds \<Rightarrow> rep_state \<Rightarrow> frame list \<Rightarrow> bool" where
  "phase th c frs \<longleftrightarrow>
     frs \<noteq> [] \<and>
     list_all (\<lambda>fr. in_state th c fr \<and> now fr - now (hd frs) < INACTIVE_THRESH th) frs"

text \<open>The state of a session at rest, as an s1 frame leaves it: the previous state is s1 and
  no rep is open.\<close>

definition rested :: "tracker \<Rightarrow> bool" where
  "rested t \<longleftrightarrow>
     state_seq t = [] \<and> prev_state t = Some S1 \<and>
     rep_min_angle t = None \<and> rep_max_angle t = None \<and>
     s3_enter_time t = None \<and> \<not> s3_hold_ok t \<and> \<not> INCORRECT_POSTURE t"

text \<open>The state of a session within an open rep without form violation: the sequence, the
  previous state, the hold timer and flag, the two counters, and the clock reading \<open>T0\<close> at
  which the side-view accumulator was last zeroed.\<close>

definition mid_rep ::
  "rep_state list \<Rightarrow> rep_state \<Rightarrow> rat option \<Rightarrow> bool \<Rightarrow> int \<Rightarrow> int \<Rightarrow> rat \<Rightarrow> tracker \<Rightarrow> bool" where
  "mid_rep seq c enter hold c0 i0 T0 t \<longleftrightarrow>
     state_seq t = seq \<and> prev_state t = Some c \<and>
     s3_enter_time t = enter \<and> s3_hold_ok t = hold \<and> \<not> INCORRECT_POSTURE t \<and>
     CORRECT_COUNT t = c0 \<and> INCORRECT_COUNT t = i0 \<and>
     start_inactive_time t - INACTIVE_TIME t = T0 \<and> rep_inv t"

text \<open>The recorded maximum angle is set and at least \<open>lo\<close>.\<close>

definition max_at_least :: "int \<Rightarrow> tracker \<Rightarrow> bool" where
  "max_at_least lo t = (case rep_max_angle t of None \<Rightarrow> False | Some mx \<Rightarrow> lo \<le> mx)"

section \<open>Concrete frames and states\<close>

text \<open>A frame with landmarks, seen from the side (offset angle 10), with driving angle
  \<open>a\<close> at clock reading \<open>clk\<close>, the knee straight (flexion 5) and the torso tilted by 5.\<close>

definition pose_frame :: "rat \<Rightarrow> rat \<Rightarrow> frame" where
  "pose_frame a clk =
     \<lparr> landmarks = True, offset_angle = 10, hip_angle = 180 - a,
       knee_internal = 175, torso_tilt = 5, now = clk \<rparr>"

text \<open>A frame with landmarks, seen from the front (offset angle 40).\<close>

definition front_frame :: "rat \<Rightarrow> frame" where
  "front_frame clk =
     \<lparr> landmarks = True, offset_angle = 40, hip_angle = 175,
       knee_internal = 175, torso_tilt = 5, now = clk \<rparr>"

text \<open>A frame with landmarks, seen from the side, with driving angle \<open>a\<close> and the knee bent
  by 30 degrees.\<close>

definition bent_knee_frame :: "rat \<Rightarrow> rat \<Rightarrow> frame" where
  "bent_knee_frame a clk =
     \<lparr> landmarks = True, offset_angle = 10, hip_angle = 180 - a,
       knee_internal = 150, torso_tilt = 5, now = clk \<rparr>"

text \<open>\<open>n\<close> frames seen from the front, one every hundredth of a second after clock
  reading 1.\<close>

definition front_run :: "nat \<Rightarrow> frame list" where
  "front_run n = map (\<lambda>k. front_frame (1 + of_nat k / 100)) [1..<Suc n]"

text \<open>Scenario A of the specification: driving angles 5, 5, 30, 70, 70, 70, 70, 30, 5 under
  the leg-raise-beginner profile, without form violation; the third frame at 70 degrees
  comes \<open>hold\<close> seconds after the first one.\<close>

definition scenario_A :: "rat \<Rightarrow> frame list" where
  "scenario_A hold =
     [pose_frame 5 0, pose_frame 5 (1 / 10), pose_frame 30 (2 / 10),
      pose_frame 70 (3 / 10), pose_frame 70 (7 / 10), pose_frame 70 (3 / 10 + hold),
      pose_frame 70 (4 / 10 + hold), pose_frame 30 (5 / 10 + hold), pose_frame 5 (6 / 10 + hold)]"

text \<open>Scenario B of the specification: driving angles 5, 30, 70, 30, 5, the leg leaving the
  PASS band 0.3 seconds after it entered it.\<close>

definition scenario_B :: "frame list" where
  "scenario_B =
     [pose_frame 5 0, pose_frame 30 (1 / 10), pose_frame 70 (2 / 10),
      pose_frame 30 (5 / 10), pose_frame 5 (6 / 10)]"

text \<open>The leg is raised and then seen in the PASS band in three frames, the last of them
  1.2 seconds after the first.\<close>

definition hold_short :: "frame list" where
  "hold_short =
     [pose_frame 30 (1 / 10), pose_frame 70 (2 / 10), pose_frame 70 (8 / 10),
      pose_frame 70 (14 / 10)]"

text \<open>The state of a session in which a full rep has been performed and the leg is on its
  way down: the sequence is complete, the hold has been recorded and the angles seen range
  from 16 to 70.\<close>

definition rep_done :: tracker where
  "rep_done =
     (init_tracker 0)\<lparr> state_seq := [S2, S3, S2], prev_state := Some S2,
        s3_hold_ok := True, rep_min_angle := Some 16, rep_max_angle := Some 70 \<rparr>"

text \<open>The state of a session in which the leg was raised into the TRANS band only.\<close>

definition rep_partial :: tracker where
  "rep_partial =
     (init_tracker 0)\<lparr> state_seq := [S2], prev_state := Some S2,
        rep_min_angle := Some 16, rep_max_angle := Some 30 \<rparr>"

text \<open>The state after the first frame of a session, in which the leg was raised to 30 degrees
  with a bent knee: the knee cue (flag 0) and the raise-higher cue (flag 2) are set.\<close>

definition knee_cue :: tracker where
  "knee_cue =
     \<lparr> state_seq = [S2], prev_state = Some S2, curr_state = Some S2,
       s3_enter_time = None, s3_hold_ok = False,
       rep_min_angle = Some 30, rep_max_angle = Some 30,
       start_inactive_time = 1, INACTIVE_TIME = 0,
       start_inactive_time_front = 1, INACTIVE_TIME_FRONT = 0,
       DISPLAY_TEXT = [True, False, True, False], COUNT_FRAMES = [1, 0, 1, 0],
       INCORRECT_POSTURE = True, CORRECT_COUNT = 0, INCORRECT_COUNT = 0 \<rparr>"

text \<open>The state after the two resting frames that Scenario A starts with.\<close>

definition after_rest :: tracker where
  "after_rest =
     \<lparr> state_seq = [], prev_state = Some S1, curr_state = Some S1,
       s3_enter_time = None, s3_hold_ok = False,
       rep_min_angle = None, rep_max_angle = None,
       start_inactive_time = 1 / 10, INACTIVE_TIME = 1 / 10,
       start_inactive_time_front = 1 / 10, INACTIVE_TIME_FRONT = 0,
       DISPLAY_TEXT = [False, False, False, False], COUNT_FRAMES = [0, 0, 0, 0],
       INCORRECT_POSTURE = False, CORRECT_COUNT = 0, INCORRECT_COUNT = 2 \<rparr>"

text \<open>The state after the frames of \<open>hold_short\<close>: the hold timer runs since clock reading
  0.2 and the hold flag is not set.\<close>

definition holding :: tracker where
  "holding =
     \<lparr> state_seq = [S2, S3], prev_state = Some S3, curr_state = Some S3,
       s3_enter_time = Some (1 / 5), s3_hold_ok = False,
       rep_min_angle = Some 30, rep_max_angle = Some 70,
       start_inactive_time = 7 / 5, INACTIVE_TIME = 6 / 5,
       start_inactive_time_front = 7 / 5, INACTIVE_TIME_FRONT = 0,
       DISPLAY_TEXT = [False, False, True, False], COUNT_FRAMES = [0, 0, 4, 0],
       INCORRECT_POSTURE = False, CORRECT_COUNT = 0, INCORRECT_COUNT = 0 \<rparr>"

text \<open>A frame in which the pose estimator finds no landmarks.\<close>

definition lost_frame :: "rat \<Rightarrow> frame" where
  "lost_frame clk =
     \<lparr> landmarks = False, offset_angle = 0, hip_angle = 0,
       knee_internal = 0, torso_tilt = 0, now = clk \<rparr>"

text \<open>A rep with a full hold, after which the leg is raised into the PASS band again:
  driving angles 5, 30, 70, 70 (5 seconds later), 30, 70.\<close>

definition drop_run :: "frame list" where
  "drop_run =
     [pose_frame 5 0, pose_frame 30 (1 / 10), pose_frame 70 (2 / 10),
      pose_frame 70 (52 / 10), pose_frame 30 (53 / 10), pose_frame 70 (54 / 10)]"

text \<open>The state after the frames of \<open>drop_run\<close>: the sequence is complete, the hold is
  recorded, the posture flag is not set, the angles seen range from 30 to 70, and the
  previous state is s3.\<close>

definition dropped :: tracker where
  "dropped =
     \<lparr> state_seq = [S2, S3, S2], prev_state = Some S3, curr_state = Some S3,
       s3_enter_time = Some (27 / 5), s3_hold_ok = True,
       rep_min_angle = Some 30, rep_max_angle = Some 70,
       start_inactive_time = 27 / 5, INACTIVE_TIME = 0,
       start_inactive_time_front = 27 / 5, INACTIVE_TIME_FRONT = 0,
       DISPLAY_TEXT = [False, False, True, False], COUNT_FRAMES = [0, 0, 5, 0],
       INCORRECT_POSTURE = False, CORRECT_COUNT = 0, INCORRECT_COUNT = 1 \<rparr>"

section \<open>Stage lemmas\<close>




lemma banner_ttl_fields:
  "INACTIVE_TIME_FRONT (banner_ttl th t) = INACTIVE_TIME_FRONT t"
  "start_inactive_time_front (banner_ttl th t) = start_inactive_time_front t"
  "INACTIVE_TIME (banner_ttl th t) = INACTIVE_TIME t"
  "start_inactive_time (banner_ttl th t) = start_inactive_time t"
  "CORRECT_COUNT (banner_ttl th t) = CORRECT_COUNT t"
  "INCORRECT_COUNT (banner_ttl th t) = INCORRECT_COUNT t"
  "state_seq (banner_ttl th t) = state_seq t"
  "prev_state (banner_ttl th t) = prev_state t"
  "curr_state (banner_ttl th t) = curr_state t"
  "s3_enter_time (banner_ttl th t) = s3_enter_time t"
  "s3_hold_ok (banner_ttl th t) = s3_hold_ok t"
  "rep_min_angle (banner_ttl th t) = rep_min_angle t"
  "rep_max_angle (banner_ttl th t) = rep_max_angle t"
  "INCORRECT_POSTURE (banner_ttl th t) = INCORRECT_POSTURE t"
  by (simp_all add: banner_ttl_def Let_def)

lemma aligned_Inr:
  "aligned th fr t = Inr (t', ev) \<longleftrightarrow>
     (\<exists>u w. classify_track th fr t = Inr u \<and>
        side_inactivity th fr
          (counting_feedback th fr (get_state th (py_int (hip_vertical fr))) u) = (w, ev) \<and>
        t' = (banner_ttl th w)\<lparr> prev_state := get_state th (py_int (hip_vertical fr)) \<rparr>)"
  by (auto simp: aligned_def Let_def split: sum.splits prod.splits)


lemma classify_track_keeps:
  "classify_track th fr t = Inr u \<Longrightarrow>
     prev_state u = prev_state t \<and>
     curr_state u = get_state th (py_int (hip_vertical fr)) \<and>
     INACTIVE_TIME u = INACTIVE_TIME t \<and>
     start_inactive_time u = start_inactive_time t \<and>
     CORRECT_COUNT u = CORRECT_COUNT t \<and>
     INCORRECT_COUNT u = INCORRECT_COUNT t \<and>
     INCORRECT_POSTURE u = INCORRECT_POSTURE t \<and>
     state_seq u = update_state_sequence (get_state th (py_int (hip_vertical fr))) (state_seq t)"
  by (auto simp: classify_track_def track_range_def hold_timing_def suppress_form_cues_def Let_def
      split: if_splits option.splits)

lemma counting_feedback_keeps:
  "counting_feedback th fr cs u = (v, e) \<Longrightarrow>
     prev_state v = prev_state u \<and> curr_state v = curr_state u \<and>
     INACTIVE_TIME v = INACTIVE_TIME u \<and> start_inactive_time v = start_inactive_time u"
  by (auto simp: counting_feedback_def rep_resolution_def rep_outcome_def drop_check_def
      clear_rep_def reset_live_flags_def live_feedback_def Let_def split: if_splits)

lemma counting_feedback_event:
  "counting_feedback th fr cs u = (v, e) \<Longrightarrow>
     (if cs = Some S1
      then e = Some Incorrect \<or> e = Some (Count (CORRECT_COUNT u + 1))
      else e = None)"
  by (auto simp: counting_feedback_def rep_resolution_def rep_outcome_def drop_check_def
      Let_def split: if_splits)

lemma side_inactivity_event:
  "side_inactivity th fr (v, e) = (w, e') \<Longrightarrow>
     e' = (if curr_state v = prev_state v \<and>
              INACTIVE_TIME v + (now fr - start_inactive_time v) \<ge> INACTIVE_THRESH th
           then Some ResetCounters else e)"
  by (auto simp: side_inactivity_def Let_def split: if_splits)

lemma aligned_event:
  assumes "aligned th fr t = Inr (t', ev)"
  shows "(if get_state th (py_int (hip_vertical fr)) = prev_state t \<and>
            INACTIVE_TIME t + (now fr - start_inactive_time t) \<ge> INACTIVE_THRESH th
          then ev = Some ResetCounters
          else if get_state th (py_int (hip_vertical fr)) = Some S1
          then ev = Some Incorrect \<or> ev = Some (Count (CORRECT_COUNT t + 1))
          else ev = None)"
proof -
  let ?cs = "get_state th (py_int (hip_vertical fr))"
  from assms obtain u w where
    u: "classify_track th fr t = Inr u" and
    w: "side_inactivity th fr (counting_feedback th fr ?cs u) = (w, ev)"
    unfolding aligned_Inr by blast
  obtain v e where v: "counting_feedback th fr ?cs u = (v, e)"
    by (cases "counting_feedback th fr ?cs u")
  note ku = classify_track_keeps [OF u]
  note kv = counting_feedback_keeps [OF v]
  note ev = counting_feedback_event [OF v]
  note se = side_inactivity_event [OF w [unfolded v]]
  show ?thesis
    using ku kv ev se by (auto split: if_splits)
qed

lemma side_inactivity_cases:
  "side_inactivity th fr (v, e) =
     (if curr_state v = prev_state v \<and>
         INACTIVE_TIME v + (now fr - start_inactive_time v) \<ge> INACTIVE_THRESH th
      then (hard_reset_all (now fr) v, Some ResetCounters)
      else if curr_state v = prev_state v
      then (v\<lparr> INACTIVE_TIME := INACTIVE_TIME v + (now fr - start_inactive_time v),
               start_inactive_time := now fr \<rparr>, e)
      else (v\<lparr> start_inactive_time := now fr, INACTIVE_TIME := 0 \<rparr>, e))"
  by (simp add: side_inactivity_def Let_def hard_reset_all_def reset_live_flags_def)

lemma classify_track_total:
  "rep_min_angle t = None \<or> rep_max_angle t \<noteq> None \<Longrightarrow> \<exists>u. classify_track th fr t = Inr u"
  by (auto simp: classify_track_def track_range_def Let_def split: option.splits)

lemma classify_track_s1:
  "classify_track th fr t = Inr u \<Longrightarrow> get_state th (py_int (hip_vertical fr)) = Some S1 \<Longrightarrow>
     state_seq u = state_seq t"
  by (drule classify_track_keeps) (simp add: update_state_sequence_def)

lemma classify_track_hold:
  "classify_track th fr t = Inr u \<Longrightarrow>
     s3_enter_time u =
       (if get_state th (py_int (hip_vertical fr)) = Some S3
        then Some (case s3_enter_time t of None \<Rightarrow> now fr | Some t0 \<Rightarrow> t0)
        else None) \<and>
     s3_hold_ok u =
       (s3_hold_ok t \<or>
        (get_state th (py_int (hip_vertical fr)) = Some S3 \<and>
         (case s3_enter_time t of None \<Rightarrow> False | Some t0 \<Rightarrow> now fr - t0 \<ge> TARGET_HOLD)))"
  by (auto simp: classify_track_def track_range_def hold_timing_def suppress_form_cues_def Let_def
      split: if_splits option.splits)

lemma live_feedback_keeps:
  "prev_state (live_feedback th fr cs u) = prev_state u"
  "curr_state (live_feedback th fr cs u) = curr_state u"
  "INACTIVE_TIME (live_feedback th fr cs u) = INACTIVE_TIME u"
  "start_inactive_time (live_feedback th fr cs u) = start_inactive_time u"
  "CORRECT_COUNT (live_feedback th fr cs u) = CORRECT_COUNT u"
  "INCORRECT_COUNT (live_feedback th fr cs u) = INCORRECT_COUNT u"
  "s3_enter_time (live_feedback th fr cs u) = s3_enter_time u"
  "s3_hold_ok (live_feedback th fr cs u) = s3_hold_ok u"
  by (simp_all add: live_feedback_def Let_def)

lemma live_feedback_posture:
  "INCORRECT_POSTURE (live_feedback th fr cs u) =
     (INCORRECT_POSTURE u \<or> (cs \<noteq> Some S3 \<and> \<not> good_form th fr))"
  by (auto simp: live_feedback_def Let_def good_form_def)

lemma live_feedback_rep:
  "rep_min_angle (live_feedback th fr cs u) = rep_min_angle u"
  "rep_max_angle (live_feedback th fr cs u) = rep_max_angle u"
  "state_seq (live_feedback th fr cs u) = state_seq u"
  by (simp_all add: live_feedback_def Let_def)

lemma run_frames_append:
  "run_frames th (xs @ ys) t =
     (case run_frames th xs t of
        Inl e \<Rightarrow> Inl e
      | Inr (t1, evs1) \<Rightarrow>
          (case run_frames th ys t1 of
             Inl e \<Rightarrow> Inl e
           | Inr (t2, evs2) \<Rightarrow> Inr (t2, evs1 @ evs2)))"
  by (induction xs arbitrary: t) (auto split: sum.splits prod.splits)

text \<open>A frame that returns before the classification: without landmarks or seen from the
  front.\<close>

lemma early_return_frame:
  assumes "\<not> reaches_banners th fr"
  shows "process th fr t =
     (if hard_reset_fires th fr t
      then Inr (hard_reset_all (now fr) t, Some ResetCounters)
      else Inr (if landmarks fr
                then t\<lparr> INACTIVE_TIME_FRONT :=
                           INACTIVE_TIME_FRONT t + (now fr - start_inactive_time_front t),
                         start_inactive_time_front := now fr,
                         INACTIVE_TIME := 0,
                         start_inactive_time := now fr \<rparr>
                else t\<lparr> INACTIVE_TIME := INACTIVE_TIME t + (now fr - start_inactive_time t),
                         start_inactive_time := now fr \<rparr>, None))"
  using assms
  by (simp add: process_def reaches_banners_def hard_reset_fires_def no_landmarks_def
      misaligned_def Let_def hard_reset_all_def reset_live_flags_def)

section \<open>The cleared per-rep state\<close>

lemma flags_stay_clear:
  "list_all (\<lambda>d. \<not> d) ds \<Longrightarrow>
     list_all (\<lambda>d. \<not> d) (map (\<lambda>(d, m). if m then False else d) (zip ds ms))"
  by (auto simp: list_all_iff dest: set_zip_leftD)

lemma counted_stay_zero:
  assumes "list_all (\<lambda>c. c = 0) cs" and "list_all (\<lambda>d. \<not> d) ds"
  shows "list_all (\<lambda>c. c = (0::int)) (map (\<lambda>(c, d). if d then int64 (c + 1) else c) (zip cs ds))"
  unfolding list_all_iff
proof
  fix x
  assume "x \<in> set (map (\<lambda>(c, d). if d then int64 (c + 1) else c) (zip cs ds))"
  then obtain c d where cd: "(c, d) \<in> set (zip cs ds)" and x: "x = (if d then int64 (c + 1) else c)"
    by auto
  from cd have "c \<in> set cs" and "d \<in> set ds"
    by (rule set_zip_leftD, rule set_zip_rightD)
  with assms have "c = 0" and "\<not> d"
    unfolding list_all_iff by blast+
  with x show "x = 0" by simp
qed

lemma counts_stay_zero:
  "list_all (\<lambda>c. c = 0) cs \<Longrightarrow>
     list_all (\<lambda>c. c = (0::int)) (map (\<lambda>(c, m). if m then 0 else c) (zip cs ms))"
  by (auto simp: list_all_iff dest: set_zip_leftD)

lemma banner_ttl_cleared: "rep_cleared t \<Longrightarrow> rep_cleared (banner_ttl th t)"
  unfolding rep_cleared_def banner_ttl_def Let_def
  by (simp add: flags_stay_clear counted_stay_zero counts_stay_zero)

lemma clear_rep_cleared: "rep_cleared (clear_rep t)"
  by (simp add: rep_cleared_def clear_rep_def reset_live_flags_def list_all_iff)

lemma hard_reset_cleared: "rep_cleared (hard_reset_all clk t)"
  by (simp add: rep_cleared_def hard_reset_all_def reset_live_flags_def list_all_iff)

lemma rep_resolution_cleared: "rep_cleared (fst (rep_resolution th u))"
  by (simp add: rep_resolution_def split_beta clear_rep_cleared)

lemma side_inactivity_cleared:
  "rep_cleared v \<Longrightarrow> rep_cleared (fst (side_inactivity th fr (v, e)))"
  by (simp add: side_inactivity_def Let_def hard_reset_cleared)
     (simp add: rep_cleared_def)

lemma process_resolves:
  assumes "resolves th fr" and "classify_track th fr t = Inr u"
  shows "process th fr t =
     Inr ((banner_ttl th (fst (side_inactivity th fr (rep_resolution th u))))
            \<lparr> prev_state := Some S1 \<rparr>,
          snd (side_inactivity th fr (rep_resolution th u)))"
  using assms
  by (simp add: process_def resolves_def aligned_def counting_feedback_def Let_def split_beta)

lemma rep_resolution_keeps:
  "prev_state (fst (rep_resolution th u)) = prev_state u"
  "curr_state (fst (rep_resolution th u)) = curr_state u"
  "INACTIVE_TIME (fst (rep_resolution th u)) = INACTIVE_TIME u"
  "start_inactive_time (fst (rep_resolution th u)) = start_inactive_time u"
  by (simp_all add: rep_resolution_def rep_outcome_def drop_check_def clear_rep_def
      reset_live_flags_def Let_def split_beta)

lemma rep_resolution_counts:
  "rep_resolution th u = (v, e) \<Longrightarrow>
     (if rep_correct th (drop_check u)
      then CORRECT_COUNT v = CORRECT_COUNT u + 1 \<and> INCORRECT_COUNT v = INCORRECT_COUNT u \<and>
           e = Some (Count (CORRECT_COUNT u + 1))
      else INCORRECT_COUNT v = INCORRECT_COUNT u + 1 \<and> CORRECT_COUNT v = CORRECT_COUNT u \<and>
           e = Some Incorrect)"
  by (auto simp: rep_resolution_def rep_outcome_def drop_check_def clear_rep_def
      reset_live_flags_def Let_def split: if_splits)

lemma resolving_frame_cleared:
  assumes r: "resolves th fr" and u: "classify_track th fr t = Inr u"
  shows "\<exists>t' ev. process th fr t = Inr (t', ev) \<and> rep_cleared t'"
proof -
  obtain v e where v: "rep_resolution th u = (v, e)"
    by (cases "rep_resolution th u")
  have "rep_cleared v"
    using rep_resolution_cleared [of th u] v by simp
  from side_inactivity_cleared [OF this, of th fr e]
  have "rep_cleared (banner_ttl th (fst (side_inactivity th fr (v, e))))"
    by (rule banner_ttl_cleared)
  then show ?thesis
    unfolding process_resolves [OF r u] v by (simp add: rep_cleared_def)
qed

lemma firing_frame_cleared:
  assumes r: "reaches_banners th fr" and u: "classify_track th fr t = Inr u"
    and f: "hard_reset_fires th fr t"
  shows "\<exists>t'. process th fr t = Inr (t', Some ResetCounters) \<and> rep_cleared t'"
proof -
  let ?cs = "get_state th (py_int (hip_vertical fr))"
  obtain v e where v: "counting_feedback th fr ?cs u = (v, e)"
    by (cases "counting_feedback th fr ?cs u")
  note ku = classify_track_keeps [OF u]
  note kv = counting_feedback_keeps [OF v]
  from r f ku kv have fire: "curr_state v = prev_state v \<and>
      INACTIVE_TIME v + (now fr - start_inactive_time v) \<ge> INACTIVE_THRESH th"
    by (simp add: hard_reset_fires_def reaches_banners_def)
  then have s: "side_inactivity th fr (v, e) = (hard_reset_all (now fr) v, Some ResetCounters)"
    by (simp add: side_inactivity_cases)
  have "rep_cleared (banner_ttl th (hard_reset_all (now fr) v))"
    using hard_reset_cleared by (rule banner_ttl_cleared)
  then show ?thesis
    using r u v s
    by (simp add: process_def reaches_banners_def aligned_def Let_def rep_cleared_def)
qed

section \<open>Sequence legality\<close>

lemma feed_states_cases:
  "feed_states sts = [] \<or> feed_states sts = [S2] \<or> feed_states sts = [S2, S3] \<or>
   feed_states sts = [S2, S3, S2]"
proof (induction sts rule: rev_induct)
  case Nil
  show ?case by (simp add: feed_states_def)
next
  case (snoc st sts)
  have step: "feed_states (sts @ [st]) = update_state_sequence st (feed_states sts)"
    by (simp add: feed_states_def)
  from snoc show ?case
    unfolding step by (auto simp: update_state_sequence_def)
qed

lemma rep_resolution_no_s3:
  "S3 \<notin> set (state_seq t) \<Longrightarrow>
     snd (rep_resolution th t) = Some Incorrect \<and>
     INCORRECT_COUNT (fst (rep_resolution th t)) = INCORRECT_COUNT t + 1 \<and>
     CORRECT_COUNT (fst (rep_resolution th t)) = CORRECT_COUNT t"
  by (auto simp: rep_resolution_def rep_outcome_def rep_correct_def drop_check_def clear_rep_def
      reset_live_flags_def Let_def)

text \<open>
  Claim C3. Whatever sequence of classified states has been fed to the updater, starting
  from the empty sequence: \<^verbatim>\<open>state_seq\<close> is a prefix of [s2, s3, s2]; the next state
  appends "s2" iff it is s2 and either the sequence has no "s3" and no "s2", or exactly one
  "s3" and exactly one "s2"; it appends "s3" iff it is s3 and the sequence has no "s3" and
  has an "s2"; every other state leaves the sequence as it is. In particular an s3 that
  arrives while no "s2" has been entered is dropped, and as long as no "s3" has been
  appended, whatever else the sequence holds, a resolution is an incorrect rep: the event
  is \<open>Incorrect\<close>, the incorrect count grows by one and the correct count stays.
\<close>

theorem state_seq_legal:
  "prefix (feed_states sts) [S2, S3, S2] \<and>
   (update_state_sequence st (feed_states sts) = feed_states sts @ [S2] \<longleftrightarrow>
      st = Some S2 \<and>
      ((S3 \<notin> set (feed_states sts) \<and> count_list (feed_states sts) S2 = 0) \<or>
       (count_list (feed_states sts) S3 = 1 \<and> count_list (feed_states sts) S2 = 1))) \<and>
   (update_state_sequence st (feed_states sts) = feed_states sts @ [S3] \<longleftrightarrow>
      st = Some S3 \<and> S3 \<notin> set (feed_states sts) \<and> S2 \<in> set (feed_states sts)) \<and>
   (update_state_sequence st (feed_states sts) = feed_states sts \<or>
    update_state_sequence st (feed_states sts) = feed_states sts @ [S2] \<or>
    update_state_sequence st (feed_states sts) = feed_states sts @ [S3]) \<and>
   (S2 \<notin> set (feed_states sts) \<longrightarrow>
      update_state_sequence (Some S3) (feed_states sts) = feed_states sts) \<and>
   (S3 \<notin> set (feed_states sts) \<longrightarrow>
      (\<forall>th t. state_seq t = feed_states sts \<longrightarrow>
         snd (rep_resolution th t) = Some Incorrect \<and>
         INCORRECT_COUNT (fst (rep_resolution th t)) = INCORRECT_COUNT t + 1 \<and>
         CORRECT_COUNT (fst (rep_resolution th t)) = CORRECT_COUNT t))"
proof -
  have res: "S3 \<notin> set (feed_states sts) \<longrightarrow>
      (\<forall>th t. state_seq t = feed_states sts \<longrightarrow>
         snd (rep_resolution th t) = Some Incorrect \<and>
         INCORRECT_COUNT (fst (rep_resolution th t)) = INCORRECT_COUNT t + 1 \<and>
         CORRECT_COUNT (fst (rep_resolution th t)) = CORRECT_COUNT t)"
    using rep_resolution_no_s3 by metis
  consider "feed_states sts = []" | "feed_states sts = [S2]" | "feed_states sts = [S2, S3]"
    | "feed_states sts = [S2, S3, S2]"
    using feed_states_cases by blast
  then have "prefix (feed_states sts) [S2, S3, S2] \<and>
   (update_state_sequence st (feed_states sts) = feed_states sts @ [S2] \<longleftrightarrow>
      st = Some S2 \<and>
      ((S3 \<notin> set (feed_states sts) \<and> count_list (feed_states sts) S2 = 0) \<or>
       (count_list (feed_states sts) S3 = 1 \<and> count_list (feed_states sts) S2 = 1))) \<and>
   (update_state_sequence st (feed_states sts) = feed_states sts @ [S3] \<longleftrightarrow>
      st = Some S3 \<and> S3 \<notin> set (feed_states sts) \<and> S2 \<in> set (feed_states sts)) \<and>
   (update_state_sequence st (feed_states sts) = feed_states sts \<or>
    update_state_sequence st (feed_states sts) = feed_states sts @ [S2] \<or>
    update_state_sequence st (feed_states sts) = feed_states sts @ [S3]) \<and>
   (S2 \<notin> set (feed_states sts) \<longrightarrow>
      update_state_sequence (Some S3) (feed_states sts) = feed_states sts)"
  proof cases
    case 1
    then show ?thesis by (auto simp: update_state_sequence_def)
  next
    case 2
    then show ?thesis by (auto simp: update_state_sequence_def)
  next
    case 3
    then show ?thesis by (auto simp: update_state_sequence_def)
  next
    case 4
    then show ?thesis by (auto simp: update_state_sequence_def)
  qed
  with res show ?thesis by blast
qed

theorem state_seq_legal_witness:
  "feed_states [Some S1, Some S3] = [] \<and>
   S2 \<notin> set (feed_states [Some S1, Some S3]) \<and>
   update_state_sequence (Some S3) (feed_states [Some S1, Some S3]) = [] \<and>
   feed_states [Some S1, Some S3, Some S3, Some S2] = [S2] \<and>
   S3 \<notin> set (feed_states [Some S1, Some S3, Some S3, Some S2]) \<and>
   state_seq (rep_partial\<lparr> curr_state := Some S1 \<rparr>) =
     feed_states [Some S1, Some S3, Some S3, Some S2] \<and>
   snd (rep_resolution get_thresholds_leg_raises_beginner
          (rep_partial\<lparr> curr_state := Some S1 \<rparr>)) = Some Incorrect \<and>
   INCORRECT_COUNT (fst (rep_resolution get_thresholds_leg_raises_beginner
          (rep_partial\<lparr> curr_state := Some S1 \<rparr>))) = 1 \<and>
   CORRECT_COUNT (fst (rep_resolution get_thresholds_leg_raises_beginner
          (rep_partial\<lparr> curr_state := Some S1 \<rparr>))) = 0"
proof -
  let ?t = "rep_partial\<lparr> curr_state := Some S1 \<rparr>"
  have seq: "feed_states [Some S1, Some S3] = []"
    "feed_states [Some S1, Some S3, Some S3, Some S2] = [S2]"
    by (simp_all add: feed_states_def update_state_sequence_def)
  have st: "state_seq ?t = [S2]" "INCORRECT_COUNT ?t = 0" "CORRECT_COUNT ?t = 0"
    by (simp_all add: rep_partial_def init_tracker_def)
  from state_seq_legal [of "[Some S1, Some S3]" "Some S3"] seq
  have a: "update_state_sequence (Some S3) (feed_states [Some S1, Some S3]) = []"
    by simp
  from state_seq_legal [of "[Some S1, Some S3, Some S3, Some S2]" "Some S1"] seq st
  have b: "snd (rep_resolution get_thresholds_leg_raises_beginner ?t) = Some Incorrect \<and>
      INCORRECT_COUNT (fst (rep_resolution get_thresholds_leg_raises_beginner ?t)) = 1 \<and>
      CORRECT_COUNT (fst (rep_resolution get_thresholds_leg_raises_beginner ?t)) = 0"
    by simp
  from a b seq st show ?thesis by simp
qed

section \<open>Hard reset\<close>

text \<open>
  Claim C10. For a fixed clock reading, a hard reset applied twice gives the same session
  state as applied once, and that state is the zeroed one: both counters zero, an empty
  \<^verbatim>\<open>state_seq\<close>, no previous and no current state, the per-rep fields and every banner
  flag and counter cleared, both inactivity accumulators zero and both anchors at the clock
  reading.
\<close>

theorem hard_reset_idempotent:
  "hard_reset_all clk (hard_reset_all clk t) = hard_reset_all clk t \<and>
   hard_reset_all clk t =
     \<lparr> state_seq = [], prev_state = None, curr_state = None,
       s3_enter_time = None, s3_hold_ok = False,
       rep_min_angle = None, rep_max_angle = None,
       start_inactive_time = clk, INACTIVE_TIME = 0,
       start_inactive_time_front = clk, INACTIVE_TIME_FRONT = 0,
       DISPLAY_TEXT = replicate (length (DISPLAY_TEXT t)) False,
       COUNT_FRAMES = replicate (length (COUNT_FRAMES t)) 0,
       INCORRECT_POSTURE = False,
       CORRECT_COUNT = 0, INCORRECT_COUNT = 0 \<rparr>"
  by (simp add: hard_reset_all_def reset_live_flags_def map_replicate_const)

section \<open>Alignment guard\<close>



section \<open>The event of a frame\<close>

text \<open>
  Claim C9. A call of \<^verbatim>\<open>process\<close> that returns gives one value of \<^verbatim>\<open>play_sound\<close>: the
  hard-reset event, the incorrect event, the correct-count event or no event. It is the
  hard-reset event exactly when a hard reset fires in the frame, also when the frame
  resolved a rep before (the earlier event is overwritten); it is the incorrect or the
  correct-count event exactly when no hard reset fires and the frame resolves a rep; it is
  no event exactly when neither holds.
\<close>

theorem single_event:
  assumes "process th fr t = Inr (t', ev)"
  shows "(ev = Some ResetCounters \<longleftrightarrow> hard_reset_fires th fr t) \<and>
         (ev = Some Incorrect \<or> ev = Some (Count (CORRECT_COUNT t + 1)) \<longleftrightarrow>
            \<not> hard_reset_fires th fr t \<and> resolves th fr) \<and>
         (ev = None \<longleftrightarrow> \<not> hard_reset_fires th fr t \<and> \<not> resolves th fr)"
proof (cases "landmarks fr \<and> \<not> offset_angle fr > OFFSET_THRESH th")
  case True
  with assms have "aligned th fr t = Inr (t', ev)"
    by (simp add: process_def)
  from aligned_event [OF this] True show ?thesis
    by (auto simp: hard_reset_fires_def resolves_def split: if_splits)
next
  case False
  with assms show ?thesis
    by (auto simp: process_def no_landmarks_def misaligned_def Let_def hard_reset_fires_def
        resolves_def split: if_splits)
qed

theorem single_event_witness:
  "process get_thresholds_leg_raises_beginner (pose_frame 5 16)
     ((init_tracker 1)\<lparr> prev_state := Some S1, INCORRECT_COUNT := 1 \<rparr>) =
     Inr ((init_tracker 16)\<lparr> prev_state := Some S1 \<rparr>, Some ResetCounters) \<and>
   hard_reset_fires get_thresholds_leg_raises_beginner (pose_frame 5 16)
     ((init_tracker 1)\<lparr> prev_state := Some S1, INCORRECT_COUNT := 1 \<rparr>) \<and>
   resolves get_thresholds_leg_raises_beginner (pose_frame 5 16)"
proof -
  have p: "process get_thresholds_leg_raises_beginner (pose_frame 5 16)
     ((init_tracker 1)\<lparr> prev_state := Some S1, INCORRECT_COUNT := 1 \<rparr>) =
     Inr ((init_tracker 16)\<lparr> prev_state := Some S1 \<rparr>, Some ResetCounters)"
    by code_simp
  have r: "resolves get_thresholds_leg_raises_beginner (pose_frame 5 16)"
    by code_simp
  from single_event [OF p] p r show ?thesis by simp
qed

section \<open>Rep resolution\<close>

text \<open>
  Claim C4, as amended. Take a frame classified s1 (landmarks present, camera aligned,
  driving angle in the NORMAL band), let \<open>u\<close> be the state in which it reaches the rep
  resolution (line 334) and \<open>v\<close>, \<open>e\<close> the state and the event the resolution leaves. In
  \<open>u\<close> the sequence, the previous state, the posture flag, the hold flag and the two counts
  are those of the start of the frame. The rep resolves as correct (the correct count grows
  by one and the event is the new count) iff \<^verbatim>\<open>state_seq\<close> is [s2, s3, s2], the posture
  flag is false and the previous state is not s3 (a drop from s3 latches the posture flag
  before the check), the hold flag is true and the range between the recorded maximum and
  minimum angle is at least \<^verbatim>\<open>REP_MIN_RANGE\<close>; then the incorrect count is unchanged.
  Otherwise the incorrect count grows by one, the correct count is unchanged, the event is
  the incorrect one and, when "s2" is in \<^verbatim>\<open>state_seq\<close> and "s3" is not, the outcome step
  sets the banner flag 2 (raise higher). In both cases the resolution ends with the per-rep
  state clear. \<^verbatim>\<open>process\<close> returns with the per-rep state clear: when the inactivity
  watchdog does not fire on the frame, with the event and the counts of the resolution;
  when it fires, with the hard-reset event and both counts zero.
\<close>

theorem rep_resolution_outcome:
  assumes "resolves th fr" and "classify_track th fr t = Inr u"
    and "rep_resolution th u = (v, e)"
  shows
    "(CORRECT_COUNT v = CORRECT_COUNT u + 1 \<and> e = Some (Count (CORRECT_COUNT u + 1)) \<longleftrightarrow>
        state_seq u = [S2, S3, S2] \<and> \<not> INCORRECT_POSTURE u \<and> prev_state u \<noteq> Some S3 \<and>
        s3_hold_ok u \<and>
        (\<exists>mn mx. rep_min_angle u = Some mn \<and> rep_max_angle u = Some mx \<and>
                  mx - mn \<ge> REP_MIN_RANGE th)) \<and>
     (CORRECT_COUNT v = CORRECT_COUNT u + 1 \<longrightarrow> INCORRECT_COUNT v = INCORRECT_COUNT u) \<and>
     (CORRECT_COUNT v \<noteq> CORRECT_COUNT u + 1 \<longrightarrow>
        CORRECT_COUNT v = CORRECT_COUNT u \<and> INCORRECT_COUNT v = INCORRECT_COUNT u + 1 \<and>
        e = Some Incorrect \<and>
        (S2 \<in> set (state_seq u) \<and> S3 \<notin> set (state_seq u) \<longrightarrow>
           DISPLAY_TEXT (fst (rep_outcome th (drop_check u))) =
             (if prev_state u = Some S3 then (DISPLAY_TEXT u)[3 := True] else DISPLAY_TEXT u)
               [2 := True])) \<and>
     rep_cleared v \<and>
     (state_seq u = state_seq t \<and> prev_state u = prev_state t \<and>
      INCORRECT_POSTURE u = INCORRECT_POSTURE t \<and> s3_hold_ok u = s3_hold_ok t \<and>
      CORRECT_COUNT u = CORRECT_COUNT t \<and> INCORRECT_COUNT u = INCORRECT_COUNT t) \<and>
     (\<exists>t' ev. process th fr t = Inr (t', ev) \<and> rep_cleared t' \<and>
        (if hard_reset_fires th fr t
         then ev = Some ResetCounters \<and> CORRECT_COUNT t' = 0 \<and> INCORRECT_COUNT t' = 0
         else ev = e \<and> CORRECT_COUNT t' = CORRECT_COUNT v \<and>
              INCORRECT_COUNT t' = INCORRECT_COUNT v))"
proof -
  note r = assms(1) and u = assms(2) and v = assms(3)
  from r have s1: "get_state th (py_int (hip_vertical fr)) = Some S1"
    and al: "landmarks fr" "\<not> offset_angle fr > OFFSET_THRESH th"
    by (simp_all add: resolves_def)
  have corr: "rep_correct th (drop_check u) \<longleftrightarrow>
        state_seq u = [S2, S3, S2] \<and> \<not> INCORRECT_POSTURE u \<and> prev_state u \<noteq> Some S3 \<and>
        s3_hold_ok u \<and>
        (\<exists>mn mx. rep_min_angle u = Some mn \<and> rep_max_angle u = Some mx \<and>
                  mx - mn \<ge> REP_MIN_RANGE th)"
    by (auto simp: rep_correct_def range_ok_def drop_check_def split: option.splits)
  note cnt = rep_resolution_counts [OF v]
  have a: "CORRECT_COUNT v = CORRECT_COUNT u + 1 \<and> e = Some (Count (CORRECT_COUNT u + 1)) \<longleftrightarrow>
        state_seq u = [S2, S3, S2] \<and> \<not> INCORRECT_POSTURE u \<and> prev_state u \<noteq> Some S3 \<and>
        s3_hold_ok u \<and>
        (\<exists>mn mx. rep_min_angle u = Some mn \<and> rep_max_angle u = Some mx \<and>
                  mx - mn \<ge> REP_MIN_RANGE th)"
    using cnt unfolding corr [symmetric] by (auto split: if_splits)
  have b: "CORRECT_COUNT v = CORRECT_COUNT u + 1 \<longrightarrow> INCORRECT_COUNT v = INCORRECT_COUNT u"
    using cnt by (auto split: if_splits)
  have c: "CORRECT_COUNT v \<noteq> CORRECT_COUNT u + 1 \<longrightarrow>
        CORRECT_COUNT v = CORRECT_COUNT u \<and> INCORRECT_COUNT v = INCORRECT_COUNT u + 1 \<and>
        e = Some Incorrect \<and>
        (S2 \<in> set (state_seq u) \<and> S3 \<notin> set (state_seq u) \<longrightarrow>
           DISPLAY_TEXT (fst (rep_outcome th (drop_check u))) =
             (if prev_state u = Some S3 then (DISPLAY_TEXT u)[3 := True] else DISPLAY_TEXT u)
               [2 := True])"
    using cnt by (auto simp: rep_outcome_def rep_correct_def drop_check_def Let_def split: if_splits)
  have d: "rep_cleared v"
    using rep_resolution_cleared [of th u] v by simp
  note ku = classify_track_keeps [OF u]
  note hu = classify_track_hold [OF u]
  have k: "state_seq u = state_seq t \<and> prev_state u = prev_state t \<and>
      INCORRECT_POSTURE u = INCORRECT_POSTURE t \<and> s3_hold_ok u = s3_hold_ok t \<and>
      CORRECT_COUNT u = CORRECT_COUNT t \<and> INCORRECT_COUNT u = INCORRECT_COUNT t"
    using ku hu s1 classify_track_s1 [OF u s1] by simp
  have kv: "prev_state v = prev_state u" "curr_state v = curr_state u"
    "INACTIVE_TIME v = INACTIVE_TIME u" "start_inactive_time v = start_inactive_time u"
    using rep_resolution_keeps [of th u] v by simp_all
  have fires: "hard_reset_fires th fr t \<longleftrightarrow>
      curr_state v = prev_state v \<and>
      INACTIVE_TIME v + (now fr - start_inactive_time v) \<ge> INACTIVE_THRESH th"
    using al s1 ku kv by (auto simp: hard_reset_fires_def)
  have cl: "rep_cleared ((banner_ttl th (fst (side_inactivity th fr (v, e))))
            \<lparr> prev_state := Some S1 \<rparr>)"
    using banner_ttl_cleared [OF side_inactivity_cleared [OF d, of th fr e], of th]
    by (simp add: rep_cleared_def)
  have f: "\<exists>t' ev. process th fr t = Inr (t', ev) \<and> rep_cleared t' \<and>
        (if hard_reset_fires th fr t
         then ev = Some ResetCounters \<and> CORRECT_COUNT t' = 0 \<and> INCORRECT_COUNT t' = 0
         else ev = e \<and> CORRECT_COUNT t' = CORRECT_COUNT v \<and>
              INCORRECT_COUNT t' = INCORRECT_COUNT v)"
  proof (cases "hard_reset_fires th fr t")
    case True
    then have w: "snd (side_inactivity th fr (v, e)) = Some ResetCounters"
      "CORRECT_COUNT (fst (side_inactivity th fr (v, e))) = 0"
      "INCORRECT_COUNT (fst (side_inactivity th fr (v, e))) = 0"
      using fires
      by (simp_all add: side_inactivity_cases hard_reset_all_def reset_live_flags_def)
    show ?thesis
      unfolding process_resolves [OF r u] v
      using True w cl by (simp add: banner_ttl_fields)
  next
    case False
    then have w: "snd (side_inactivity th fr (v, e)) = e"
      "CORRECT_COUNT (fst (side_inactivity th fr (v, e))) = CORRECT_COUNT v"
      "INCORRECT_COUNT (fst (side_inactivity th fr (v, e))) = INCORRECT_COUNT v"
      using fires by (simp_all add: side_inactivity_cases)
    show ?thesis
      unfolding process_resolves [OF r u] v
      using False w cl by (simp add: banner_ttl_fields)
  qed
  from a b c d k f show ?thesis by blast
qed

theorem rep_resolution_outcome_witness:
  "resolves get_thresholds_leg_raises_beginner (pose_frame 5 1) \<and>
   classify_track get_thresholds_leg_raises_beginner (pose_frame 5 1) rep_done =
     Inr (rep_done\<lparr> curr_state := Some S1, rep_min_angle := Some 5,
            start_inactive_time_front := 1 \<rparr>) \<and>
   rep_resolution get_thresholds_leg_raises_beginner
     (rep_done\<lparr> curr_state := Some S1, rep_min_angle := Some 5, start_inactive_time_front := 1 \<rparr>) =
     ((init_tracker 0)\<lparr> prev_state := Some S2, curr_state := Some S1,
         start_inactive_time_front := 1, CORRECT_COUNT := 1 \<rparr>, Some (Count 1)) \<and>
   \<not> hard_reset_fires get_thresholds_leg_raises_beginner (pose_frame 5 1) rep_done \<and>
   (\<exists>t'. process get_thresholds_leg_raises_beginner (pose_frame 5 1) rep_done =
           Inr (t', Some (Count 1)) \<and>
         CORRECT_COUNT t' = 1 \<and> INCORRECT_COUNT t' = 0 \<and> rep_cleared t') \<and>
   classify_track get_thresholds_leg_raises_beginner (pose_frame 5 1) rep_partial =
     Inr (rep_partial\<lparr> curr_state := Some S1, rep_min_angle := Some 5,
            start_inactive_time_front := 1 \<rparr>) \<and>
   rep_resolution get_thresholds_leg_raises_beginner
     (rep_partial\<lparr> curr_state := Some S1, rep_min_angle := Some 5,
        start_inactive_time_front := 1 \<rparr>) =
     ((init_tracker 0)\<lparr> prev_state := Some S2, curr_state := Some S1,
         start_inactive_time_front := 1, INCORRECT_COUNT := 1 \<rparr>, Some Incorrect) \<and>
   DISPLAY_TEXT (fst (rep_outcome get_thresholds_leg_raises_beginner
      (drop_check (rep_partial\<lparr> curr_state := Some S1, rep_min_angle := Some 5,
         start_inactive_time_front := 1 \<rparr>)))) = [False, False, True, False] \<and>
   resolves get_thresholds_leg_raises_beginner (pose_frame 5 (76 / 5)) \<and>
   classify_track get_thresholds_leg_raises_beginner (pose_frame 5 (76 / 5)) after_rest =
     Inr (after_rest\<lparr> start_inactive_time_front := 76 / 5 \<rparr>) \<and>
   rep_resolution get_thresholds_leg_raises_beginner
     (after_rest\<lparr> start_inactive_time_front := 76 / 5 \<rparr>) =
     (after_rest\<lparr> start_inactive_time_front := 76 / 5, INCORRECT_COUNT := 3 \<rparr>,
      Some Incorrect) \<and>
   hard_reset_fires get_thresholds_leg_raises_beginner (pose_frame 5 (76 / 5)) after_rest \<and>
   (\<exists>t'. process get_thresholds_leg_raises_beginner (pose_frame 5 (76 / 5)) after_rest =
           Inr (t', Some ResetCounters) \<and>
         CORRECT_COUNT t' = 0 \<and> INCORRECT_COUNT t' = 0 \<and> rep_cleared t')"
proof -
  let ?th = get_thresholds_leg_raises_beginner
  let ?u = "rep_done\<lparr> curr_state := Some S1, rep_min_angle := Some 5,
              start_inactive_time_front := 1 \<rparr>"
  let ?v = "(init_tracker 0)\<lparr> prev_state := Some S2, curr_state := Some S1,
              start_inactive_time_front := 1, CORRECT_COUNT := 1 \<rparr>"
  let ?u1 = "rep_partial\<lparr> curr_state := Some S1, rep_min_angle := Some 5,
               start_inactive_time_front := 1 \<rparr>"
  let ?v1 = "(init_tracker 0)\<lparr> prev_state := Some S2, curr_state := Some S1,
               start_inactive_time_front := 1, INCORRECT_COUNT := 1 \<rparr>"
  let ?fr2 = "pose_frame 5 (76 / 5)"
  let ?u2 = "after_rest\<lparr> start_inactive_time_front := 76 / 5 \<rparr>"
  let ?v2 = "after_rest\<lparr> start_inactive_time_front := 76 / 5, INCORRECT_COUNT := 3 \<rparr>"
  have r: "resolves ?th (pose_frame 5 1)" "resolves ?th ?fr2"
    by code_simp+
  have c: "classify_track ?th (pose_frame 5 1) rep_done = Inr ?u"
    "classify_track ?th (pose_frame 5 1) rep_partial = Inr ?u1"
    "classify_track ?th ?fr2 after_rest = Inr ?u2"
    by code_simp+
  have p: "rep_resolution ?th ?u = (?v, Some (Count 1))"
    "rep_resolution ?th ?u1 = (?v1, Some Incorrect)"
    "rep_resolution ?th ?u2 = (?v2, Some Incorrect)"
    by code_simp+
  have f: "\<not> hard_reset_fires ?th (pose_frame 5 1) rep_done"
    "hard_reset_fires ?th ?fr2 after_rest"
    by code_simp+
  have cv: "CORRECT_COUNT ?v = 1" "INCORRECT_COUNT ?v = 0"
    by (simp_all add: init_tracker_def)
  have d: "(if prev_state ?u1 = Some S3 then (DISPLAY_TEXT ?u1)[3 := True] else DISPLAY_TEXT ?u1)
             [2 := True] = [False, False, True, False]"
    "S2 \<in> set (state_seq ?u1)" "S3 \<notin> set (state_seq ?u1)"
    "CORRECT_COUNT ?v1 \<noteq> CORRECT_COUNT ?u1 + 1"
    by code_simp+
  from rep_resolution_outcome [OF r(1) c(1) p(1)] f(1) cv
  have a1: "\<exists>t'. process ?th (pose_frame 5 1) rep_done = Inr (t', Some (Count 1)) \<and>
         CORRECT_COUNT t' = 1 \<and> INCORRECT_COUNT t' = 0 \<and> rep_cleared t'"
    by auto
  from rep_resolution_outcome [OF r(1) c(2) p(2)] d
  have a2: "DISPLAY_TEXT (fst (rep_outcome ?th (drop_check ?u1))) = [False, False, True, False]"
    by simp
  from rep_resolution_outcome [OF r(2) c(3) p(3)] f(2)
  have a3: "\<exists>t'. process ?th ?fr2 after_rest = Inr (t', Some ResetCounters) \<and>
         CORRECT_COUNT t' = 0 \<and> INCORRECT_COUNT t' = 0 \<and> rep_cleared t'"
    by auto
  from a1 a2 a3 r c p f show ?thesis by simp
qed

text \<open>
  Claim C4 as stated fails in two ways. First, the four conditions do not decide the
  outcome. After a rep with a full hold the leg is raised into the PASS band once more
  (the frames of \<open>drop_run\<close>): the sequence is [s2, s3, s2], the posture flag is not set,
  the hold flag is set and the range is 40, at least \<^verbatim>\<open>REP_MIN_RANGE\<close> = 35. The next frame
  is classified s1 and reaches the resolution with the four conditions true (the range is
  then 65), the watchdog does not fire, and yet the rep resolves as incorrect and the
  correct count stays 0: the previous state is s3, so the drop check latches the posture
  flag. Second, on a resting frame on which the inactivity watchdog fires, the incorrect
  count does not grow by one: it is 2 before the frame and 0 after it, and the event is the
  hard reset.
\<close>

theorem drop_latch_counterexample:
  "run_frames get_thresholds_leg_raises_beginner drop_run (init_tracker 0) =
     Inr (dropped, [Some Incorrect, None, None, None, None, None]) \<and>
   resolves get_thresholds_leg_raises_beginner (pose_frame 5 (11 / 2)) \<and>
   classify_track get_thresholds_leg_raises_beginner (pose_frame 5 (11 / 2)) dropped =
     Inr (dropped\<lparr> curr_state := Some S1, s3_enter_time := None, rep_min_angle := Some 5,
            start_inactive_time_front := 11 / 2 \<rparr>) \<and>
   state_seq dropped = [S2, S3, S2] \<and>
   \<not> INCORRECT_POSTURE dropped \<and>
   s3_hold_ok dropped \<and>
   rep_min_angle dropped = Some 30 \<and> rep_max_angle dropped = Some 70 \<and>
   REP_MIN_RANGE get_thresholds_leg_raises_beginner \<le> 70 - 30 \<and>
   prev_state dropped = Some S3 \<and>
   \<not> hard_reset_fires get_thresholds_leg_raises_beginner (pose_frame 5 (11 / 2)) dropped \<and>
   process get_thresholds_leg_raises_beginner (pose_frame 5 (11 / 2)) dropped =
     Inr ((init_tracker (11 / 2))\<lparr> prev_state := Some S1, curr_state := Some S1,
            INCORRECT_COUNT := 2 \<rparr>, Some Incorrect) \<and>
   CORRECT_COUNT dropped = 0 \<and> INCORRECT_COUNT dropped = 1 \<and>
   run_frames get_thresholds_leg_raises_beginner [pose_frame 5 0, pose_frame 5 (1 / 10)]
     (init_tracker 0) = Inr (after_rest, [Some Incorrect, Some Incorrect]) \<and>
   resolves get_thresholds_leg_raises_beginner (pose_frame 5 (76 / 5)) \<and>
   INCORRECT_COUNT after_rest = 2 \<and>
   process get_thresholds_leg_raises_beginner (pose_frame 5 (76 / 5)) after_rest =
     Inr ((init_tracker (76 / 5))\<lparr> prev_state := Some S1 \<rparr>, Some ResetCounters) \<and>
   INCORRECT_COUNT ((init_tracker (76 / 5))\<lparr> prev_state := Some S1 \<rparr>) = 0"
  by code_simp

section \<open>Resolution on every s1 frame\<close>

text \<open>
  Claim C5, as amended. On every frame classified s1 (landmarks present, camera aligned,
  driving angle in the NORMAL band), whatever the sequence holds, the rep resolution runs
  and \<^verbatim>\<open>process\<close> returns. Unless the inactivity watchdog fires on that frame, exactly one
  of the two counters has grown by one and the other is unchanged, with the matching
  event; when \<^verbatim>\<open>state_seq\<close> is not [s2, s3, s2], in particular when it is empty on a
  resting frame, it is the incorrect count that grows. When the watchdog fires (the
  previous state is s1 as well and the side-view accumulator reaches \<^verbatim>\<open>INACTIVE_THRESH\<close>)
  both counters are zero after the frame and the event is the hard reset.
\<close>

theorem resting_frame_counts:
  assumes "resolves th fr" and "rep_min_angle t = None \<or> rep_max_angle t \<noteq> None"
  shows "\<exists>t' ev. process th fr t = Inr (t', ev) \<and>
    (if hard_reset_fires th fr t
     then CORRECT_COUNT t' = 0 \<and> INCORRECT_COUNT t' = 0 \<and> ev = Some ResetCounters
     else ((CORRECT_COUNT t' = CORRECT_COUNT t + 1 \<and> INCORRECT_COUNT t' = INCORRECT_COUNT t \<and>
            ev = Some (Count (CORRECT_COUNT t + 1))) \<or>
           (CORRECT_COUNT t' = CORRECT_COUNT t \<and> INCORRECT_COUNT t' = INCORRECT_COUNT t + 1 \<and>
            ev = Some Incorrect)) \<and>
          (state_seq t \<noteq> [S2, S3, S2] \<longrightarrow>
             INCORRECT_COUNT t' = INCORRECT_COUNT t + 1 \<and> ev = Some Incorrect))"
proof -
  from classify_track_total [OF assms(2)] obtain u where u: "classify_track th fr t = Inr u"
    by blast
  from assms(1) have s1: "get_state th (py_int (hip_vertical fr)) = Some S1"
    and al: "landmarks fr" "\<not> offset_angle fr > OFFSET_THRESH th"
    by (simp_all add: resolves_def)
  note ku = classify_track_keeps [OF u]
  note sq = classify_track_s1 [OF u s1]
  obtain v e where v: "rep_resolution th u = (v, e)"
    by (cases "rep_resolution th u")
  note cnt = rep_resolution_counts [OF v]
  have kv: "prev_state v = prev_state u" "curr_state v = curr_state u"
    "INACTIVE_TIME v = INACTIVE_TIME u" "start_inactive_time v = start_inactive_time u"
    using rep_resolution_keeps [of th u] v by simp_all
  have fires: "hard_reset_fires th fr t \<longleftrightarrow>
      curr_state v = prev_state v \<and>
      INACTIVE_TIME v + (now fr - start_inactive_time v) \<ge> INACTIVE_THRESH th"
    using al s1 ku kv by (auto simp: hard_reset_fires_def)
  have nc: "state_seq t \<noteq> [S2, S3, S2] \<Longrightarrow> \<not> rep_correct th (drop_check u)"
    using sq by (simp add: rep_correct_def drop_check_def)
  show ?thesis
  proof (cases "hard_reset_fires th fr t")
    case True
    then show ?thesis
      unfolding process_resolves [OF assms(1) u] v
      using fires by (simp add: side_inactivity_cases banner_ttl_fields hard_reset_all_def
          reset_live_flags_def)
  next
    case False
    then have w: "snd (side_inactivity th fr (v, e)) = e"
      "CORRECT_COUNT (fst (side_inactivity th fr (v, e))) = CORRECT_COUNT v"
      "INCORRECT_COUNT (fst (side_inactivity th fr (v, e))) = INCORRECT_COUNT v"
      using fires by (simp_all add: side_inactivity_cases)
    show ?thesis
      unfolding process_resolves [OF assms(1) u] v
      using False w cnt ku nc by (auto simp: banner_ttl_fields split: if_splits)
  qed
qed

theorem resting_frame_counts_witness:
  "resolves get_thresholds_leg_raises_beginner (pose_frame 5 2) \<and>
   \<not> hard_reset_fires get_thresholds_leg_raises_beginner (pose_frame 5 2)
       ((init_tracker 1)\<lparr> prev_state := Some S1, curr_state := Some S1, INCORRECT_COUNT := 1 \<rparr>) \<and>
   (\<exists>t'. process get_thresholds_leg_raises_beginner (pose_frame 5 2)
       ((init_tracker 1)\<lparr> prev_state := Some S1, curr_state := Some S1, INCORRECT_COUNT := 1 \<rparr>) =
       Inr (t', Some Incorrect) \<and> INCORRECT_COUNT t' = 2 \<and> CORRECT_COUNT t' = 0) \<and>
   hard_reset_fires get_thresholds_leg_raises_beginner (pose_frame 5 16)
       ((init_tracker 1)\<lparr> prev_state := Some S1, curr_state := Some S1, INCORRECT_COUNT := 1 \<rparr>) \<and>
   (\<exists>t'. process get_thresholds_leg_raises_beginner (pose_frame 5 16)
       ((init_tracker 1)\<lparr> prev_state := Some S1, curr_state := Some S1, INCORRECT_COUNT := 1 \<rparr>) =
       Inr (t', Some ResetCounters) \<and> INCORRECT_COUNT t' = 0 \<and> CORRECT_COUNT t' = 0)"
proof -
  let ?th = get_thresholds_leg_raises_beginner
  let ?t = "(init_tracker 1)\<lparr> prev_state := Some S1, curr_state := Some S1, INCORRECT_COUNT := 1 \<rparr>"
  have r: "resolves ?th (pose_frame 5 2)" "resolves ?th (pose_frame 5 16)"
    by code_simp+
  have pr: "rep_min_angle ?t = None \<or> rep_max_angle ?t \<noteq> None"
    by (simp add: init_tracker_def)
  have f: "\<not> hard_reset_fires ?th (pose_frame 5 2) ?t" "hard_reset_fires ?th (pose_frame 5 16) ?t"
    by code_simp+
  have st: "state_seq ?t \<noteq> [S2, S3, S2]" "INCORRECT_COUNT ?t = 1" "CORRECT_COUNT ?t = 0"
    by (simp_all add: init_tracker_def)
  from resting_frame_counts [OF r(1) pr] f(1) st
  have a: "\<exists>t'. process ?th (pose_frame 5 2) ?t = Inr (t', Some Incorrect) \<and>
       INCORRECT_COUNT t' = 2 \<and> CORRECT_COUNT t' = 0"
    by auto
  from resting_frame_counts [OF r(2) pr] f(2)
  have b: "\<exists>t'. process ?th (pose_frame 5 16) ?t = Inr (t', Some ResetCounters) \<and>
       INCORRECT_COUNT t' = 0 \<and> CORRECT_COUNT t' = 0"
    by auto
  from a b r f show ?thesis by simp
qed

text \<open>
  Claim C5 as stated fails when the watchdog fires: from the initial state, a resting frame
  at clock reading 1 counts one incorrect rep; a second resting frame 15 seconds later is
  classified s1 as well, and after it neither counter has grown by one: both are zero.
\<close>

theorem resting_reset_counterexample:
  "resolves get_thresholds_leg_raises_beginner (pose_frame 5 1) \<and>
   resolves get_thresholds_leg_raises_beginner (pose_frame 5 16) \<and>
   process get_thresholds_leg_raises_beginner (pose_frame 5 1) (init_tracker 0) =
     Inr ((init_tracker 1)\<lparr> prev_state := Some S1, curr_state := Some S1,
            INCORRECT_COUNT := 1 \<rparr>, Some Incorrect) \<and>
   process get_thresholds_leg_raises_beginner (pose_frame 5 16)
     ((init_tracker 1)\<lparr> prev_state := Some S1, curr_state := Some S1, INCORRECT_COUNT := 1 \<rparr>) =
     Inr ((init_tracker 16)\<lparr> prev_state := Some S1 \<rparr>, Some ResetCounters) \<and>
   INCORRECT_COUNT ((init_tracker 16)\<lparr> prev_state := Some S1 \<rparr>) = 0 \<and>
   CORRECT_COUNT ((init_tracker 16)\<lparr> prev_state := Some S1 \<rparr>) = 0 \<and>
   INCORRECT_COUNT ((init_tracker 1)\<lparr> prev_state := Some S1, curr_state := Some S1,
     INCORRECT_COUNT := 1 \<rparr>) = 1 \<and>
   CORRECT_COUNT ((init_tracker 1)\<lparr> prev_state := Some S1, curr_state := Some S1,
     INCORRECT_COUNT := 1 \<rparr>) = 0"
  by code_simp

section \<open>The per-rep angle range\<close>

lemma rep_inv_cleared: "rep_cleared t \<Longrightarrow> rep_inv t"
  by (simp add: rep_inv_def rep_cleared_def)

lemma rep_inv_cong:
  "rep_min_angle t' = rep_min_angle t \<Longrightarrow> rep_max_angle t' = rep_max_angle t \<Longrightarrow>
   state_seq t' = state_seq t \<Longrightarrow> rep_inv t' = rep_inv t"
  by (simp add: rep_inv_def split: option.splits)

lemma update_state_sequence_mono:
  "S2 \<in> set seq \<Longrightarrow> S2 \<in> set (update_state_sequence st seq)"
  by (simp add: update_state_sequence_def)

lemma classify_track_range:
  assumes "rep_inv t"
  shows "\<exists>u. classify_track th fr t = Inr u \<and> rep_inv u \<and>
           rep_min_angle u =
             (if S2 \<in> set (state_seq u)
              then Some (case rep_min_angle t of None \<Rightarrow> py_int (hip_vertical fr)
                         | Some mn \<Rightarrow> min mn (py_int (hip_vertical fr)))
              else None) \<and>
           rep_max_angle u =
             (if S2 \<in> set (state_seq u)
              then Some (case rep_max_angle t of None \<Rightarrow> py_int (hip_vertical fr)
                         | Some mx \<Rightarrow> max mx (py_int (hip_vertical fr)))
              else None)"
proof (cases "rep_min_angle t")
  case None
  with assms have "rep_max_angle t = None" "S2 \<notin> set (state_seq t)"
    by (simp_all add: rep_inv_def)
  with None show ?thesis
    by (simp add: classify_track_def track_range_def hold_timing_def suppress_form_cues_def
        Let_def rep_inv_def split: option.splits)
next
  case (Some mn)
  with assms obtain mx where mx: "rep_max_angle t = Some mx" "mn \<le> mx" "S2 \<in> set (state_seq t)"
    by (auto simp: rep_inv_def split: option.splits)
  from mx(3) have in2: "\<And>st. S2 \<in> set (update_state_sequence st (state_seq t))"
    by (rule update_state_sequence_mono)
  from mx(2) have le: "\<And>a. min mn a \<le> max mx a"
    by (simp add: min_def max_def)
  from Some mx in2 le show ?thesis
    by (simp add: classify_track_def track_range_def hold_timing_def suppress_form_cues_def
        Let_def rep_inv_def split: option.splits)
qed

lemma counting_feedback_rep_inv:
  "rep_inv u \<Longrightarrow> rep_inv (fst (counting_feedback th fr cs u))"
  by (simp add: counting_feedback_def rep_inv_cleared rep_resolution_cleared
      rep_inv_cong [OF live_feedback_rep])

lemma side_inactivity_rep_inv:
  assumes "rep_inv v"
  shows "rep_inv (fst (side_inactivity th fr (v, e)))"
proof -
  have "rep_inv (fst (side_inactivity th fr (v, e))) =
      rep_inv (if curr_state v = prev_state v \<and>
                  INACTIVE_TIME v + (now fr - start_inactive_time v) \<ge> INACTIVE_THRESH th
               then hard_reset_all (now fr) v else v)"
    by (rule rep_inv_cong) (simp_all add: side_inactivity_cases)
  with assms rep_inv_cleared [OF hard_reset_cleared] show ?thesis by simp
qed

lemma banner_ttl_rep_inv: "rep_inv (banner_ttl th w) = rep_inv w"
  by (rule rep_inv_cong) (simp_all add: banner_ttl_fields)

lemma process_rep_inv:
  assumes "rep_inv t"
  shows "\<exists>t' ev. process th fr t = Inr (t', ev) \<and> rep_inv t'"
proof (cases "landmarks fr \<and> \<not> offset_angle fr > OFFSET_THRESH th")
  case True
  from classify_track_range [OF assms, of th fr] obtain u where
    u: "classify_track th fr t = Inr u" and iu: "rep_inv u" by blast
  let ?cs = "get_state th (py_int (hip_vertical fr))"
  obtain v e where v: "counting_feedback th fr ?cs u = (v, e)"
    by (cases "counting_feedback th fr ?cs u")
  from counting_feedback_rep_inv [OF iu, of th fr ?cs] v have iv: "rep_inv v" by simp
  obtain w e' where w: "side_inactivity th fr (v, e) = (w, e')"
    by (cases "side_inactivity th fr (v, e)")
  from side_inactivity_rep_inv [OF iv, of th fr e] w have iw: "rep_inv w" by simp
  have "rep_inv ((banner_ttl th w)\<lparr> prev_state := ?cs \<rparr>) = rep_inv w"
    by (rule rep_inv_cong) (simp_all add: banner_ttl_fields)
  with iw have "rep_inv ((banner_ttl th w)\<lparr> prev_state := ?cs \<rparr>)" by simp
  with True u v w show ?thesis
    by (simp add: process_def aligned_def Let_def)
next
  case False
  have a: "rep_inv (fst (no_landmarks th fr t))"
  proof -
    have "rep_inv (fst (no_landmarks th fr t)) =
        rep_inv (if INACTIVE_TIME t + (now fr - start_inactive_time t) \<ge> INACTIVE_THRESH th
                 then hard_reset_all (now fr) t else t)"
      by (rule rep_inv_cong)
        (simp_all add: no_landmarks_def Let_def hard_reset_all_def reset_live_flags_def)
    with assms rep_inv_cleared [OF hard_reset_cleared] show ?thesis by simp
  qed
  have b: "rep_inv (fst (misaligned th fr t))"
  proof -
    have "rep_inv (fst (misaligned th fr t)) =
        rep_inv (if INACTIVE_TIME_FRONT t + (now fr - start_inactive_time_front t)
                      \<ge> INACTIVE_THRESH th
                 then hard_reset_all (now fr) t else t)"
      by (rule rep_inv_cong)
        (simp_all add: misaligned_def Let_def hard_reset_all_def reset_live_flags_def)
    with assms rep_inv_cleared [OF hard_reset_cleared] show ?thesis by simp
  qed
  from False a b show ?thesis
    by (cases "no_landmarks th fr t"; cases "misaligned th fr t") (auto simp: process_def)
qed

lemma run_frames_rep_inv:
  "rep_inv t \<Longrightarrow> \<exists>t' evs. run_frames th frs t = Inr (t', evs) \<and> rep_inv t'"
proof (induction frs arbitrary: t)
  case Nil
  then show ?case by simp
next
  case (Cons fr frs)
  from process_rep_inv [OF Cons.prems, of th fr] obtain t1 ev where
    p: "process th fr t = Inr (t1, ev)" and i: "rep_inv t1" by blast
  from Cons.IH [OF i] obtain t2 evs where "run_frames th frs t1 = Inr (t2, evs)" "rep_inv t2"
    by blast
  with p show ?case by simp
qed

text \<open>
  Claim C8. From a state in which the range invariant holds (the initial state is one),
  every run of frames returns and ends in a state in which it holds again: at every frame
  boundary the minimum and the maximum are set together, and then the minimum is at most
  the maximum. Within a frame, the range is tracked when the classification stage has
  run: if "s2" is in \<^verbatim>\<open>state_seq\<close> then, when the pair was unset, both are the current
  angle (this happens on the frame in which "s2" enters the sequence), and otherwise the
  minimum is the smaller of the old minimum and the current angle and the maximum the
  larger of the old maximum and the current angle; if "s2" is not in \<^verbatim>\<open>state_seq\<close> the
  pair is unset.
\<close>

theorem rep_range_ordered:
  assumes "rep_inv t"
  shows "(\<exists>t' evs. run_frames th frs t = Inr (t', evs) \<and> rep_inv t' \<and>
            (\<forall>mn mx. rep_min_angle t' = Some mn \<and> rep_max_angle t' = Some mx \<longrightarrow> mn \<le> mx)) \<and>
         (\<exists>u. classify_track th fr t = Inr u \<and>
            rep_min_angle u =
              (if S2 \<in> set (state_seq u)
               then Some (case rep_min_angle t of None \<Rightarrow> py_int (hip_vertical fr)
                          | Some mn \<Rightarrow> min mn (py_int (hip_vertical fr)))
               else None) \<and>
            rep_max_angle u =
              (if S2 \<in> set (state_seq u)
               then Some (case rep_max_angle t of None \<Rightarrow> py_int (hip_vertical fr)
                          | Some mx \<Rightarrow> max mx (py_int (hip_vertical fr)))
               else None)) \<and>
         rep_inv (init_tracker clk)"
proof -
  from run_frames_rep_inv [OF assms, of th frs] obtain t' evs where
    r: "run_frames th frs t = Inr (t', evs)" and i: "rep_inv t'" by blast
  from i have "\<forall>mn mx. rep_min_angle t' = Some mn \<and> rep_max_angle t' = Some mx \<longrightarrow> mn \<le> mx"
    by (auto simp: rep_inv_def)
  moreover have "rep_inv (init_tracker clk)"
    by (simp add: rep_inv_def init_tracker_def)
  ultimately show ?thesis
    using r i classify_track_range [OF assms, of th fr] by blast
qed

theorem rep_range_ordered_witness:
  "rep_inv (init_tracker 0) \<and>
   run_frames get_thresholds_leg_raises_beginner [pose_frame 30 1, pose_frame 70 2]
     (init_tracker 0) =
     Inr (\<lparr> state_seq = [S2, S3], prev_state = Some S3, curr_state = Some S3,
            s3_enter_time = Some 2, s3_hold_ok = False,
            rep_min_angle = Some 30, rep_max_angle = Some 70,
            start_inactive_time = 2, INACTIVE_TIME = 0,
            start_inactive_time_front = 2, INACTIVE_TIME_FRONT = 0,
            DISPLAY_TEXT = [False, False, True, False], COUNT_FRAMES = [0, 0, 2, 0],
            INCORRECT_POSTURE = False, CORRECT_COUNT = 0, INCORRECT_COUNT = 0 \<rparr>,
          [None, None]) \<and>
   rep_inv \<lparr> state_seq = [S2, S3], prev_state = Some S3, curr_state = Some S3,
            s3_enter_time = Some 2, s3_hold_ok = False,
            rep_min_angle = Some 30, rep_max_angle = Some 70,
            start_inactive_time = 2, INACTIVE_TIME = 0,
            start_inactive_time_front = 2, INACTIVE_TIME_FRONT = 0,
            DISPLAY_TEXT = [False, False, True, False], COUNT_FRAMES = [0, 0, 2, 0],
            INCORRECT_POSTURE = False, CORRECT_COUNT = 0, INCORRECT_COUNT = 0 \<rparr>"
proof -
  let ?th = get_thresholds_leg_raises_beginner
  let ?frs = "[pose_frame 30 1, pose_frame 70 2]"
  let ?T = "\<lparr> state_seq = [S2, S3], prev_state = Some S3, curr_state = Some S3,
            s3_enter_time = Some 2, s3_hold_ok = False,
            rep_min_angle = Some 30, rep_max_angle = Some 70,
            start_inactive_time = 2, INACTIVE_TIME = 0,
            start_inactive_time_front = 2, INACTIVE_TIME_FRONT = 0,
            DISPLAY_TEXT = [False, False, True, False], COUNT_FRAMES = [0, 0, 2, 0],
            INCORRECT_POSTURE = False, CORRECT_COUNT = 0, INCORRECT_COUNT = 0 \<rparr>"
  have i: "rep_inv (init_tracker 0)"
    by (simp add: rep_inv_def init_tracker_def)
  have p: "run_frames ?th ?frs (init_tracker 0) = Inr (?T, [None, None])"
    by code_simp
  from rep_range_ordered [OF i, of ?th ?frs] p have "rep_inv ?T"
    by auto
  with i p show ?thesis by simp
qed

section \<open>Banner lifetime\<close>

lemma int64_id: "- (2 ^ 63) \<le> x \<Longrightarrow> x < 2 ^ 63 \<Longrightarrow> int64 x = x"
  by (simp add: int64_def)

lemma banner_inv_nth:
  "banner_inv th t \<Longrightarrow> i < 4 \<Longrightarrow>
     banner_ok (CNT_FRAME_THRESH th) (COUNT_FRAMES t ! i) (DISPLAY_TEXT t ! i)"
  by (simp add: banner_inv_def list_all2_nthD)

lemma banner_invI:
  assumes "length (DISPLAY_TEXT t) = 4" and "length (COUNT_FRAMES t) = 4"
    and "\<And>i. i < 4 \<Longrightarrow> banner_ok (CNT_FRAME_THRESH th) (COUNT_FRAMES t ! i) (DISPLAY_TEXT t ! i)"
  shows "banner_inv th t"
  using assms by (simp add: banner_inv_def list_all2_conv_all_nth)

lemma banner_ttl_length:
  "length (COUNT_FRAMES t) = length (DISPLAY_TEXT t) \<Longrightarrow>
     length (DISPLAY_TEXT (banner_ttl th t)) = length (DISPLAY_TEXT t) \<and>
     length (COUNT_FRAMES (banner_ttl th t)) = length (DISPLAY_TEXT t)"
  by (simp add: banner_ttl_def Let_def)

lemma banner_ttl_nth:
  assumes "length (COUNT_FRAMES t) = length (DISPLAY_TEXT t)" and "i < length (DISPLAY_TEXT t)"
  shows "DISPLAY_TEXT (banner_ttl th t) ! i =
           (DISPLAY_TEXT t ! i \<and> int64 (COUNT_FRAMES t ! i + 1) \<le> CNT_FRAME_THRESH th)"
    and "COUNT_FRAMES (banner_ttl th t) ! i =
           (if DISPLAY_TEXT t ! i
            then (if int64 (COUNT_FRAMES t ! i + 1) > CNT_FRAME_THRESH th then 0
                  else int64 (COUNT_FRAMES t ! i + 1))
            else (if COUNT_FRAMES t ! i > CNT_FRAME_THRESH th then 0 else COUNT_FRAMES t ! i))"
  using assms by (auto simp: banner_ttl_def Let_def)

lemma carried_refl: "banner_inv th t \<Longrightarrow> carried t t"
  using banner_inv_nth [of th t]
  by (auto simp: carried_def banner_inv_def banner_ok_def split: if_splits)

lemma carried_cleared:
  "rep_cleared w \<Longrightarrow> length (DISPLAY_TEXT w) = 4 \<Longrightarrow> length (COUNT_FRAMES w) = 4 \<Longrightarrow>
     carried t w"
  by (auto simp: carried_def rep_cleared_def list_all_length)

lemma classify_track_banners:
  "classify_track th fr t = Inr u \<Longrightarrow>
     DISPLAY_TEXT u =
       (if get_state th (py_int (hip_vertical fr)) = Some S3
        then (DISPLAY_TEXT t)[0 := False, 1 := False] else DISPLAY_TEXT t) \<and>
     COUNT_FRAMES u =
       (if get_state th (py_int (hip_vertical fr)) = Some S3
        then (COUNT_FRAMES t)[0 := 0, 1 := 0] else COUNT_FRAMES t)"
  by (auto simp: classify_track_def track_range_def hold_timing_def suppress_form_cues_def Let_def
      split: if_splits option.splits)

lemma set_flag_mono: "xs ! i \<Longrightarrow> i < length xs \<Longrightarrow> (xs[j := True]) ! i"
  by (cases "j < length xs") (auto simp: nth_list_update)

lemma live_feedback_banners:
  "COUNT_FRAMES (live_feedback th fr cs u) = COUNT_FRAMES u"
  "length (DISPLAY_TEXT (live_feedback th fr cs u)) = length (DISPLAY_TEXT u)"
  "cs = Some S3 \<Longrightarrow> DISPLAY_TEXT (live_feedback th fr cs u) = DISPLAY_TEXT u"
  by (simp_all add: live_feedback_def Let_def)

lemma live_feedback_mono:
  "DISPLAY_TEXT u ! i \<Longrightarrow> i < length (DISPLAY_TEXT u) \<Longrightarrow>
     DISPLAY_TEXT (live_feedback th fr cs u) ! i"
  by (simp add: live_feedback_def Let_def set_flag_mono)

lemma rep_resolution_lengths:
  "length (DISPLAY_TEXT (fst (rep_resolution th u))) = length (DISPLAY_TEXT u)"
  "length (COUNT_FRAMES (fst (rep_resolution th u))) = length (COUNT_FRAMES u)"
  by (simp_all add: rep_resolution_def rep_outcome_def drop_check_def clear_rep_def
      reset_live_flags_def Let_def split_beta)

lemma counting_feedback_carried:
  assumes inv: "banner_inv th t" and u: "classify_track th fr t = Inr u"
  shows "carried t (fst (counting_feedback th fr (get_state th (py_int (hip_vertical fr))) u))"
proof -
  let ?cs = "get_state th (py_int (hip_vertical fr))"
  note b = classify_track_banners [OF u]
  from inv have len: "length (DISPLAY_TEXT t) = 4" "length (COUNT_FRAMES t) = 4"
    by (simp_all add: banner_inv_def)
  from carried_refl [OF inv] have ct: "carried t t" .
  consider "?cs = Some S1" | "?cs = Some S3" | "?cs \<noteq> Some S1" "?cs \<noteq> Some S3" by blast
  then show ?thesis
  proof cases
    case 1
    with b len show ?thesis
      by (simp add: counting_feedback_def carried_cleared rep_resolution_cleared
          rep_resolution_lengths)
  next
    case 2
    with b len ct show ?thesis
      by (auto simp: counting_feedback_def live_feedback_banners carried_def nth_list_update)
  next
    case 3
    with b have eq: "DISPLAY_TEXT u = DISPLAY_TEXT t" "COUNT_FRAMES u = COUNT_FRAMES t"
      by simp_all
    have "COUNT_FRAMES t ! i = 0" if "i < 4" "\<not> DISPLAY_TEXT (live_feedback th fr ?cs u) ! i" for i
    proof -
      from that len eq live_feedback_mono [of u i th fr ?cs]
      have "\<not> DISPLAY_TEXT t ! i" by auto
      with banner_inv_nth [OF inv that(1)] show ?thesis by (simp add: banner_ok_def)
    qed
    with 3 len eq show ?thesis
      by (simp add: counting_feedback_def live_feedback_banners carried_def)
  qed
qed

lemma side_inactivity_carried:
  assumes "carried t v"
  shows "carried t (fst (side_inactivity th fr (v, e)))"
proof (cases "curr_state v = prev_state v \<and>
         INACTIVE_TIME v + (now fr - start_inactive_time v) \<ge> INACTIVE_THRESH th")
  case True
  from assms have "length (DISPLAY_TEXT (hard_reset_all (now fr) v)) = 4"
    "length (COUNT_FRAMES (hard_reset_all (now fr) v)) = 4"
    by (simp_all add: carried_def hard_reset_all_def reset_live_flags_def)
  with True show ?thesis
    by (simp add: side_inactivity_cases carried_cleared hard_reset_cleared)
next
  case False
  with assms show ?thesis
    by (auto simp: side_inactivity_cases carried_def)
qed

lemma banner_ttl_step:
  assumes inv: "banner_inv th t" and c: "carried t w" and i: "i < 4"
    and ttl: "CNT_FRAME_THRESH th < 2 ^ 63 - 1"
  shows "banner_ok (CNT_FRAME_THRESH th) (COUNT_FRAMES (banner_ttl th w) ! i)
           (DISPLAY_TEXT (banner_ttl th w) ! i)"
    and "DISPLAY_TEXT (banner_ttl th w) ! i \<Longrightarrow>
           COUNT_FRAMES (banner_ttl th w) ! i = COUNT_FRAMES t ! i + 1"
proof -
  from c have len: "length (COUNT_FRAMES w) = length (DISPLAY_TEXT w)" "i < length (DISPLAY_TEXT w)"
    and cw: "COUNT_FRAMES w ! i = (if DISPLAY_TEXT w ! i then COUNT_FRAMES t ! i else 0)"
    using i by (simp_all add: carried_def)
  note n = banner_ttl_nth [OF len, of th]
  from banner_inv_nth [OF inv i] ttl
  have ok: "0 \<le> COUNT_FRAMES t ! i" "COUNT_FRAMES t ! i + 1 < 2 ^ 63"
    by (simp_all add: banner_ok_def split: if_splits)
  then have wrap: "int64 (COUNT_FRAMES t ! i + 1) = COUNT_FRAMES t ! i + 1"
    by (intro int64_id) simp_all
  show "banner_ok (CNT_FRAME_THRESH th) (COUNT_FRAMES (banner_ttl th w) ! i)
           (DISPLAY_TEXT (banner_ttl th w) ! i)"
    using n cw ok(1) wrap by (simp add: banner_ok_def)
  show "DISPLAY_TEXT (banner_ttl th w) ! i \<Longrightarrow>
           COUNT_FRAMES (banner_ttl th w) ! i = COUNT_FRAMES t ! i + 1"
    using n cw wrap by (auto split: if_splits)
qed

lemma aligned_banner_step:
  assumes inv: "banner_inv th t" and r: "reaches_banners th fr"
    and p: "process th fr t = Inr (t', ev)"
    and ttl: "CNT_FRAME_THRESH th < 2 ^ 63 - 1"
  shows "banner_inv th t'"
    and "i < 4 \<Longrightarrow> DISPLAY_TEXT t' ! i \<Longrightarrow> COUNT_FRAMES t' ! i = COUNT_FRAMES t ! i + 1"
proof -
  let ?cs = "get_state th (py_int (hip_vertical fr))"
  from r p have "aligned th fr t = Inr (t', ev)"
    by (simp add: process_def reaches_banners_def)
  then obtain u w where u: "classify_track th fr t = Inr u"
    and w: "side_inactivity th fr (counting_feedback th fr ?cs u) = (w, ev)"
    and t': "t' = (banner_ttl th w)\<lparr> prev_state := ?cs \<rparr>"
    unfolding aligned_Inr by blast
  obtain v e where v: "counting_feedback th fr ?cs u = (v, e)"
    by (cases "counting_feedback th fr ?cs u")
  from counting_feedback_carried [OF inv u] v have "carried t v" by simp
  from side_inactivity_carried [OF this, of th fr e] w v have cw: "carried t w" by simp
  then have len: "length (COUNT_FRAMES w) = length (DISPLAY_TEXT w)" "length (DISPLAY_TEXT w) = 4"
    by (simp_all add: carried_def)
  show "banner_inv th t'"
    using banner_ttl_length [OF len(1), of th] len(2) banner_ttl_step(1) [OF inv cw _ ttl]
    by (intro banner_invI) (simp_all add: t')
  show "i < 4 \<Longrightarrow> DISPLAY_TEXT t' ! i \<Longrightarrow> COUNT_FRAMES t' ! i = COUNT_FRAMES t ! i + 1"
    using banner_ttl_step(2) [OF inv cw _ ttl] by (simp add: t')
qed

lemma banner_inv_cong:
  "DISPLAY_TEXT t' = DISPLAY_TEXT t \<Longrightarrow> COUNT_FRAMES t' = COUNT_FRAMES t \<Longrightarrow>
     banner_inv th t' = banner_inv th t"
  by (simp add: banner_inv_def)

lemma banner_inv_hard_reset:
  assumes "banner_inv th t"
  shows "banner_inv th (hard_reset_all clk t)"
proof (rule banner_invI)
  from assms show "length (DISPLAY_TEXT (hard_reset_all clk t)) = 4"
    "length (COUNT_FRAMES (hard_reset_all clk t)) = 4"
    by (simp_all add: banner_inv_def hard_reset_all_def reset_live_flags_def)
  fix i :: nat
  assume "i < 4"
  with assms show "banner_ok (CNT_FRAME_THRESH th) (COUNT_FRAMES (hard_reset_all clk t) ! i)
      (DISPLAY_TEXT (hard_reset_all clk t) ! i)"
    by (simp add: banner_inv_def hard_reset_all_def reset_live_flags_def banner_ok_def)
qed

lemma other_banner_step:
  assumes inv: "banner_inv th t" and r: "\<not> reaches_banners th fr"
    and p: "process th fr t = Inr (t', ev)"
  shows "banner_inv th t'"
proof (cases "landmarks fr")
  case False
  with p have t': "t' = fst (no_landmarks th fr t)" by (simp add: process_def)
  have "banner_inv th t' =
      banner_inv th (if INACTIVE_TIME t + (now fr - start_inactive_time t) \<ge> INACTIVE_THRESH th
                     then hard_reset_all (now fr) t else t)"
    unfolding t'
    by (rule banner_inv_cong)
      (simp_all add: no_landmarks_def Let_def hard_reset_all_def reset_live_flags_def)
  with inv banner_inv_hard_reset [OF inv] show ?thesis by simp
next
  case True
  with r p have t': "t' = fst (misaligned th fr t)"
    by (simp add: process_def reaches_banners_def)
  have "banner_inv th t' =
      banner_inv th (if INACTIVE_TIME_FRONT t + (now fr - start_inactive_time_front t)
                          \<ge> INACTIVE_THRESH th
                     then hard_reset_all (now fr) t else t)"
    unfolding t'
    by (rule banner_inv_cong)
      (simp_all add: misaligned_def Let_def hard_reset_all_def reset_live_flags_def)
  with inv banner_inv_hard_reset [OF inv] show ?thesis by simp
qed

lemma process_banner_inv:
  "CNT_FRAME_THRESH th < 2 ^ 63 - 1 \<Longrightarrow> banner_inv th t \<Longrightarrow>
     process th fr t = Inr (t', ev) \<Longrightarrow> banner_inv th t'"
  using aligned_banner_step(1) other_banner_step by blast

lemma run_frames_banner_inv:
  assumes ttl: "CNT_FRAME_THRESH th < 2 ^ 63 - 1"
  shows "banner_inv th t \<Longrightarrow> run_frames th frs t = Inr (t', evs) \<Longrightarrow> banner_inv th t'"
proof (induction frs arbitrary: t evs)
  case Nil
  then show ?case by simp
next
  case (Cons fr frs)
  from Cons.prems(2) obtain t1 ev evs1 where p: "process th fr t = Inr (t1, ev)"
    and r: "run_frames th frs t1 = Inr (t', evs1)"
    by (auto split: sum.splits prod.splits)
  from process_banner_inv [OF ttl Cons.prems(1) p] have "banner_inv th t1" .
  from Cons.IH [OF this r] show ?case .
qed

lemma banner_inv_init: "banner_inv th (init_tracker clk)"
  by (simp add: banner_inv_def init_tracker_def banner_ok_def numeral_eq_Suc)

lemma banner_stays_now: "banner_stays th i frs t \<Longrightarrow> DISPLAY_TEXT t ! i"
  by (cases frs) simp_all

lemma early_return_banners:
  assumes r: "\<not> reaches_banners th fr" and len: "length (DISPLAY_TEXT t) = 4"
    "length (COUNT_FRAMES t) = 4"
  shows "\<exists>t' ev. process th fr t = Inr (t', ev) \<and>
     (if hard_reset_fires th fr t
      then DISPLAY_TEXT t' = replicate 4 False \<and> COUNT_FRAMES t' = replicate 4 0
      else DISPLAY_TEXT t' = DISPLAY_TEXT t \<and> COUNT_FRAMES t' = COUNT_FRAMES t)"
  unfolding early_return_frame [OF r]
  using len by (simp add: hard_reset_all_def reset_live_flags_def map_replicate_const)

lemma early_return_counter:
  assumes r: "\<not> reaches_banners th fr" and p: "process th fr t = Inr (t', ev)"
    and len: "length (DISPLAY_TEXT t) = 4" "length (COUNT_FRAMES t) = 4"
    and i: "i < 4" and d: "DISPLAY_TEXT t' ! i"
  shows "COUNT_FRAMES t' ! i = COUNT_FRAMES t ! i"
proof -
  from early_return_banners [OF r len] p
  have c: "if hard_reset_fires th fr t
      then DISPLAY_TEXT t' = replicate 4 False \<and> COUNT_FRAMES t' = replicate 4 0
      else DISPLAY_TEXT t' = DISPLAY_TEXT t \<and> COUNT_FRAMES t' = COUNT_FRAMES t"
    by simp
  show ?thesis
  proof (cases "hard_reset_fires th fr t")
    case True
    with c i d show ?thesis by simp
  next
    case False
    with c show ?thesis by simp
  qed
qed

lemma banner_stays_bound:
  assumes i: "i < 4" and ttl: "CNT_FRAME_THRESH th < 2 ^ 63 - 1"
  shows "banner_inv th t \<Longrightarrow> banner_stays th i frs t \<Longrightarrow>
     1 \<le> COUNT_FRAMES t ! i \<and>
     COUNT_FRAMES t ! i + int (length (filter (reaches_banners th) frs)) \<le> CNT_FRAME_THRESH th"
proof (induction frs arbitrary: t)
  case Nil
  with banner_inv_nth [OF Nil(1) i] show ?case
    by (simp add: banner_ok_def)
next
  case (Cons fr frs)
  from Cons.prems(2) obtain t1 ev where d: "DISPLAY_TEXT t ! i"
    and p: "process th fr t = Inr (t1, ev)" and s: "banner_stays th i frs t1"
    by (auto split: sum.splits prod.splits)
  from process_banner_inv [OF ttl Cons.prems(1) p] have inv1: "banner_inv th t1" .
  note ih = Cons.IH [OF inv1 s]
  note ok = banner_inv_nth [OF Cons.prems(1) i]
  show ?case
  proof (cases "reaches_banners th fr")
    case True
    from aligned_banner_step(2) [OF Cons.prems(1) True p ttl i banner_stays_now [OF s]]
    have "COUNT_FRAMES t1 ! i = COUNT_FRAMES t ! i + 1" .
    with ih ok d True show ?thesis by (simp add: banner_ok_def)
  next
    case False
    from Cons.prems(1) have "length (DISPLAY_TEXT t) = 4" "length (COUNT_FRAMES t) = 4"
      by (simp_all add: banner_inv_def)
    from early_return_counter [OF False p this i banner_stays_now [OF s]]
    have "COUNT_FRAMES t1 ! i = COUNT_FRAMES t ! i" .
    with ih ok d False show ?thesis by (simp add: banner_ok_def)
  qed
qed

text \<open>
  Claim C7, as amended. Take a profile whose \<^verbatim>\<open>CNT_FRAME_THRESH\<close> is below the largest
  int64, a state \<open>t\<close> that a run of frames reaches from the initial state, and a banner
  category \<open>i\<close>. The banner invariant holds in \<open>t\<close> (a set flag has a counter between 1 and
  \<^verbatim>\<open>CNT_FRAME_THRESH\<close>, a cleared flag has counter 0). The banner manager clears both the
  flag and the counter of a category whose counter, as line 428 leaves it, exceeds
  \<^verbatim>\<open>CNT_FRAME_THRESH\<close>. If the flag is set in \<open>t\<close> and is set in the state returned by each
  frame of a run of frames, whatever the frames are, then fewer than \<^verbatim>\<open>CNT_FRAME_THRESH\<close>
  frames of that run reach the banner manager (landmarks present, camera aligned); so a
  flag whose trigger has stopped holding does not stay set over \<^verbatim>\<open>CNT_FRAME_THRESH\<close> such
  frames. A frame that returns early (no landmarks, or camera misaligned) is not counted:
  it leaves every banner flag and counter as it was, unless its own inactivity hard reset
  fires, which clears them all.
\<close>

theorem banner_lifetime:
  assumes "run_frames th pre (init_tracker clk) = Inr (t, evs)" and "i < 4"
    and "CNT_FRAME_THRESH th < 2 ^ 63 - 1"
  shows "banner_inv th t \<and>
    (\<forall>w :: tracker. length (DISPLAY_TEXT w) = 4 \<and> length (COUNT_FRAMES w) = 4 \<and>
         (if DISPLAY_TEXT w ! i then int64 (COUNT_FRAMES w ! i + 1) else COUNT_FRAMES w ! i)
            > CNT_FRAME_THRESH th \<longrightarrow>
         \<not> DISPLAY_TEXT (banner_ttl th w) ! i \<and> COUNT_FRAMES (banner_ttl th w) ! i = 0) \<and>
    (\<forall>frs. banner_stays th i frs t \<longrightarrow>
         int (length (filter (reaches_banners th) frs)) < CNT_FRAME_THRESH th) \<and>
    (\<forall>fr. \<not> reaches_banners th fr \<longrightarrow>
       (\<exists>t' ev. process th fr t = Inr (t', ev) \<and>
          (if hard_reset_fires th fr t
           then DISPLAY_TEXT t' = replicate 4 False \<and> COUNT_FRAMES t' = replicate 4 0
           else DISPLAY_TEXT t' = DISPLAY_TEXT t \<and> COUNT_FRAMES t' = COUNT_FRAMES t)))"
proof (intro conjI allI impI)
  show inv: "banner_inv th t"
    using run_frames_banner_inv [OF assms(3) banner_inv_init assms(1)] .
  show "int (length (filter (reaches_banners th) frs)) < CNT_FRAME_THRESH th"
    if "banner_stays th i frs t" for frs
    using banner_stays_bound [OF assms(2,3) inv that] by simp
  show "\<exists>t' ev. process th fr t = Inr (t', ev) \<and>
          (if hard_reset_fires th fr t
           then DISPLAY_TEXT t' = replicate 4 False \<and> COUNT_FRAMES t' = replicate 4 0
           else DISPLAY_TEXT t' = DISPLAY_TEXT t \<and> COUNT_FRAMES t' = COUNT_FRAMES t)"
    if "\<not> reaches_banners th fr" for fr
    using early_return_banners [OF that] inv by (simp add: banner_inv_def)
next
  fix w :: tracker
  assume h: "length (DISPLAY_TEXT w) = 4 \<and> length (COUNT_FRAMES w) = 4 \<and>
         (if DISPLAY_TEXT w ! i then int64 (COUNT_FRAMES w ! i + 1) else COUNT_FRAMES w ! i)
            > CNT_FRAME_THRESH th"
  then have len: "length (COUNT_FRAMES w) = length (DISPLAY_TEXT w)" "i < length (DISPLAY_TEXT w)"
    using assms(2) by simp_all
  from banner_ttl_nth [OF len, of th] h
  show "\<not> DISPLAY_TEXT (banner_ttl th w) ! i" "COUNT_FRAMES (banner_ttl th w) ! i = 0"
    by (auto split: if_splits)
qed

theorem banner_lifetime_witness:
  "run_frames get_thresholds_leg_raises_beginner [bent_knee_frame 30 1] (init_tracker 0) =
     Inr (knee_cue, [None]) \<and>
   CNT_FRAME_THRESH get_thresholds_leg_raises_beginner < 2 ^ 63 - 1 \<and>
   banner_inv get_thresholds_leg_raises_beginner knee_cue \<and>
   banner_stays get_thresholds_leg_raises_beginner 0 [front_frame 2, pose_frame 30 3] knee_cue \<and>
   filter (reaches_banners get_thresholds_leg_raises_beginner) [front_frame 2, pose_frame 30 3] =
     [pose_frame 30 3] \<and>
   int (length (filter (reaches_banners get_thresholds_leg_raises_beginner)
     [front_frame 2, pose_frame 30 3])) < CNT_FRAME_THRESH get_thresholds_leg_raises_beginner \<and>
   \<not> DISPLAY_TEXT (banner_ttl get_thresholds_leg_raises_beginner
        (knee_cue\<lparr> COUNT_FRAMES := [50, 0, 1, 0] \<rparr>)) ! 0 \<and>
   COUNT_FRAMES (banner_ttl get_thresholds_leg_raises_beginner
        (knee_cue\<lparr> COUNT_FRAMES := [50, 0, 1, 0] \<rparr>)) ! 0 = 0 \<and>
   \<not> reaches_banners get_thresholds_leg_raises_beginner (front_frame 2) \<and>
   \<not> hard_reset_fires get_thresholds_leg_raises_beginner (front_frame 2) knee_cue \<and>
   (\<exists>t' ev. process get_thresholds_leg_raises_beginner (front_frame 2) knee_cue = Inr (t', ev) \<and>
      DISPLAY_TEXT t' = [True, False, True, False] \<and> COUNT_FRAMES t' = [1, 0, 1, 0])"
proof -
  let ?th = get_thresholds_leg_raises_beginner
  let ?w = "knee_cue\<lparr> COUNT_FRAMES := [50, 0, 1, 0] \<rparr>"
  let ?frs = "[front_frame 2, pose_frame 30 3]"
  have a: "run_frames ?th [bent_knee_frame 30 1] (init_tracker 0) = Inr (knee_cue, [None])"
    by code_simp
  have i: "(0::nat) < 4" by simp
  have ttl: "CNT_FRAME_THRESH ?th < 2 ^ 63 - 1"
    by (simp add: get_thresholds_leg_raises_beginner_def)
  have s: "banner_stays ?th 0 ?frs knee_cue"
    and f: "filter (reaches_banners ?th) ?frs = [pose_frame 30 3]"
    and r: "\<not> reaches_banners ?th (front_frame 2)"
    and nf: "\<not> hard_reset_fires ?th (front_frame 2) knee_cue"
    by code_simp+
  have w: "length (DISPLAY_TEXT ?w) = 4" "length (COUNT_FRAMES ?w) = 4"
    "(if DISPLAY_TEXT ?w ! 0 then int64 (COUNT_FRAMES ?w ! 0 + 1) else COUNT_FRAMES ?w ! 0)
       > CNT_FRAME_THRESH ?th"
    by (simp_all add: knee_cue_def get_thresholds_leg_raises_beginner_def int64_def)
  have k: "DISPLAY_TEXT knee_cue = [True, False, True, False]"
    "COUNT_FRAMES knee_cue = [1, 0, 1, 0]"
    by (simp_all add: knee_cue_def)
  note l = banner_lifetime [OF a i ttl]
  from l have "banner_inv ?th knee_cue" by simp
  moreover from l s
  have "int (length (filter (reaches_banners ?th) ?frs)) < CNT_FRAME_THRESH ?th"
    by blast
  moreover from l w have "\<not> DISPLAY_TEXT (banner_ttl ?th ?w) ! 0 \<and>
      COUNT_FRAMES (banner_ttl ?th ?w) ! 0 = 0"
    by blast
  moreover from l r nf k
  have "\<exists>t' ev. process ?th (front_frame 2) knee_cue = Inr (t', ev) \<and>
      DISPLAY_TEXT t' = [True, False, True, False] \<and> COUNT_FRAMES t' = [1, 0, 1, 0]"
    by auto
  ultimately show ?thesis using a ttl s f r nf by simp
qed

text \<open>Frames seen from the front leave a set banner flag set, as long as the front-view
  accumulator stays below the threshold.\<close>

lemma misaligned_keeps_banner:
  "DISPLAY_TEXT t ! i \<Longrightarrow>
   list_all (\<lambda>fr. landmarks fr \<and> offset_angle fr > OFFSET_THRESH th \<and>
      INACTIVE_TIME_FRONT t + (now fr - start_inactive_time_front t) < INACTIVE_THRESH th) frs \<Longrightarrow>
   banner_stays th i frs t"
proof (induction frs arbitrary: t)
  case Nil
  then show ?case by simp
next
  case (Cons fr frs)
  let ?t1 = "t\<lparr> INACTIVE_TIME_FRONT :=
                  INACTIVE_TIME_FRONT t + (now fr - start_inactive_time_front t),
               start_inactive_time_front := now fr,
               INACTIVE_TIME := 0, start_inactive_time := now fr \<rparr>"
  from Cons.prems(2) have fr: "landmarks fr" "offset_angle fr > OFFSET_THRESH th"
    "INACTIVE_TIME_FRONT t + (now fr - start_inactive_time_front t) < INACTIVE_THRESH th"
    by simp_all
  then have p: "process th fr t = Inr (?t1, None)"
    by (simp add: process_def misaligned_def Let_def)
  have d: "DISPLAY_TEXT ?t1 ! i"
    using Cons.prems(1) by simp
  have "list_all (\<lambda>f. landmarks f \<and> offset_angle f > OFFSET_THRESH th \<and>
      INACTIVE_TIME_FRONT ?t1 + (now f - start_inactive_time_front ?t1) < INACTIVE_THRESH th) frs"
    using Cons.prems(2) by (simp add: list_all_iff algebra_simps)
  from Cons.IH [OF d this] Cons.prems(1) p show ?case
    by simp
qed

text \<open>
  Claim C7 as stated fails on frames that do not reach the banner manager. After a first
  frame with a bent knee the knee cue is set; it is still set after each of 51 frames seen
  from the front, none of which triggers it, although \<^verbatim>\<open>CNT_FRAME_THRESH\<close> is 50.
\<close>

theorem banner_stale_counterexample:
  "run_frames get_thresholds_leg_raises_beginner [bent_knee_frame 30 1] (init_tracker 0) =
     Inr (knee_cue, [None]) \<and>
   CNT_FRAME_THRESH get_thresholds_leg_raises_beginner = 50 \<and>
   length (front_run 51) = 51 \<and>
   list_all (good_form get_thresholds_leg_raises_beginner) (front_run 51) \<and>
   banner_stays get_thresholds_leg_raises_beginner 0 (front_run 51) knee_cue"
proof -
  let ?th = get_thresholds_leg_raises_beginner
  have a: "run_frames ?th [bent_knee_frame 30 1] (init_tracker 0) = Inr (knee_cue, [None])"
    by code_simp
  have b: "CNT_FRAME_THRESH ?th = 50" "length (front_run 51) = 51"
    by (simp_all add: get_thresholds_leg_raises_beginner_def front_run_def)
  have c: "list_all (good_form ?th) (front_run 51)"
    by (simp add: list_all_iff front_run_def front_frame_def good_form_def knee_flexion_def
        py_int_def get_thresholds_leg_raises_beginner_def)
  have d: "DISPLAY_TEXT knee_cue ! 0"
    by (simp add: knee_cue_def)
  have e: "list_all (\<lambda>fr. landmarks fr \<and> offset_angle fr > OFFSET_THRESH ?th \<and>
      INACTIVE_TIME_FRONT knee_cue + (now fr - start_inactive_time_front knee_cue)
        < INACTIVE_THRESH ?th) (front_run 51)"
    by (auto simp: list_all_iff front_run_def front_frame_def knee_cue_def
        get_thresholds_leg_raises_beginner_def)
  from a b c misaligned_keeps_banner [OF d e] show ?thesis by simp
qed

section \<open>Frames within an open rep\<close>

text \<open>One frame that reaches the classification, is not classified s1 and on which the
  watchdog does not fire.\<close>

lemma moving_frame:
  assumes r: "reaches_banners th fr"
    and ns1: "get_state th (py_int (hip_vertical fr)) \<noteq> Some S1"
    and inv: "rep_inv t"
    and nf: "\<not> (get_state th (py_int (hip_vertical fr)) = prev_state t \<and>
               INACTIVE_TIME t + (now fr - start_inactive_time t) \<ge> INACTIVE_THRESH th)"
  shows "\<exists>t'. process th fr t = Inr (t', None) \<and>
     state_seq t' = update_state_sequence (get_state th (py_int (hip_vertical fr))) (state_seq t) \<and>
     prev_state t' = get_state th (py_int (hip_vertical fr)) \<and>
     s3_enter_time t' =
       (if get_state th (py_int (hip_vertical fr)) = Some S3
        then Some (case s3_enter_time t of None \<Rightarrow> now fr | Some t0 \<Rightarrow> t0)
        else None) \<and>
     s3_hold_ok t' =
       (s3_hold_ok t \<or>
        (get_state th (py_int (hip_vertical fr)) = Some S3 \<and>
         (case s3_enter_time t of None \<Rightarrow> False | Some t0 \<Rightarrow> now fr - t0 \<ge> TARGET_HOLD))) \<and>
     INCORRECT_POSTURE t' =
       (INCORRECT_POSTURE t \<or>
        (get_state th (py_int (hip_vertical fr)) \<noteq> Some S3 \<and> \<not> good_form th fr)) \<and>
     CORRECT_COUNT t' = CORRECT_COUNT t \<and> INCORRECT_COUNT t' = INCORRECT_COUNT t \<and>
     start_inactive_time t' = now fr \<and>
     INACTIVE_TIME t' =
       (if get_state th (py_int (hip_vertical fr)) = prev_state t
        then INACTIVE_TIME t + (now fr - start_inactive_time t) else 0) \<and>
     rep_inv t' \<and>
     rep_max_angle t' =
       (if S2 \<in> set (state_seq t')
        then Some (case rep_max_angle t of None \<Rightarrow> py_int (hip_vertical fr)
                   | Some mx \<Rightarrow> max mx (py_int (hip_vertical fr)))
        else None)"
proof -
  let ?cs = "get_state th (py_int (hip_vertical fr))"
  from classify_track_range [OF inv, of th fr] obtain u where
    u: "classify_track th fr t = Inr u" and iu: "rep_inv u"
    and mx: "rep_max_angle u =
       (if S2 \<in> set (state_seq u)
        then Some (case rep_max_angle t of None \<Rightarrow> py_int (hip_vertical fr)
                   | Some mx \<Rightarrow> max mx (py_int (hip_vertical fr)))
        else None)"
    by blast
  note ku = classify_track_keeps [OF u]
  note hu = classify_track_hold [OF u]
  let ?v = "live_feedback th fr ?cs u"
  have cf: "counting_feedback th fr ?cs u = (?v, None)"
    using ns1 by (simp add: counting_feedback_def)
  have nofire: "\<not> (curr_state ?v = prev_state ?v \<and>
         INACTIVE_TIME ?v + (now fr - start_inactive_time ?v) \<ge> INACTIVE_THRESH th)"
    using nf ku by (simp add: live_feedback_keeps)
  let ?w = "fst (side_inactivity th fr (?v, None))"
  have sw: "snd (side_inactivity th fr (?v, None)) = None"
    using nofire by (simp add: side_inactivity_cases)
  have w: "state_seq ?w = state_seq u" "s3_enter_time ?w = s3_enter_time u"
    "s3_hold_ok ?w = s3_hold_ok u" "INCORRECT_POSTURE ?w = INCORRECT_POSTURE ?v"
    "CORRECT_COUNT ?w = CORRECT_COUNT u" "INCORRECT_COUNT ?w = INCORRECT_COUNT u"
    "rep_min_angle ?w = rep_min_angle u" "rep_max_angle ?w = rep_max_angle u"
    "start_inactive_time ?w = now fr"
    "INACTIVE_TIME ?w = (if ?cs = prev_state t
        then INACTIVE_TIME t + (now fr - start_inactive_time t) else 0)"
    using nofire ku
    by (simp_all add: side_inactivity_cases live_feedback_keeps live_feedback_rep)
  let ?t' = "(banner_ttl th ?w)\<lparr> prev_state := ?cs \<rparr>"
  have p: "process th fr t = Inr (?t', None)"
    using r u cf sw
    by (simp add: process_def reaches_banners_def aligned_def Let_def split_beta)
  have "rep_inv ?t' = rep_inv u"
    by (rule rep_inv_cong) (simp_all add: banner_ttl_fields w)
  with iu have it: "rep_inv ?t'" by simp
  show ?thesis
    using p it w ku hu mx
    by (intro exI [of _ ?t']) (simp add: banner_ttl_fields live_feedback_posture)
qed

section \<open>Hold timing\<close>

text \<open>
  Claim C2, as amended. The hold target is the constant \<^verbatim>\<open>TARGET_HOLD\<close> = 5 seconds for
  every profile; \<^verbatim>\<open>HOLD_SEC\<close> is not read. In every state \<open>t\<close> that a run of frames reaches
  from a state in which the range invariant holds (the initial state is one), and for
  every next frame, \<^verbatim>\<open>process\<close> returns, and:
  \<^item> if a hard reset fires on the frame, or the frame is classified s1 (landmarks present,
    camera aligned, driving angle in the NORMAL band), the hold flag and the timer anchor
    are cleared: these are the frames that close the rep;
  \<^item> otherwise, if the frame reaches the classification, the hold flag after the frame is
    true iff it was true before, or the frame is classified s3 and the timer anchor was
    set at least 5 seconds before the clock reading of the frame; the anchor after the
    frame is the old anchor on an s3 frame (the clock reading when none was set) and is
    unset on any other frame, which leaves the flag as it is;
  \<^item> otherwise (no landmarks, or camera misaligned) the flag and the anchor are unchanged:
    the timer keeps running across such frames.
  Scenario B (a single frame in s3, left after 0.3 seconds) resolves as incorrect: its
  events are incorrect (the leading resting frame), none three times, and incorrect.
\<close>

theorem hold_flag_fixed_target:
  assumes "rep_inv s" and "run_frames th pre s = Inr (t, evs)"
  shows "(\<exists>t' ev. process th fr t = Inr (t', ev) \<and>
      (if hard_reset_fires th fr t \<or> resolves th fr
       then \<not> s3_hold_ok t' \<and> s3_enter_time t' = None
       else if reaches_banners th fr
       then s3_hold_ok t' =
              (s3_hold_ok t \<or>
               (get_state th (py_int (hip_vertical fr)) = Some S3 \<and>
                (case s3_enter_time t of None \<Rightarrow> False
                 | Some t0 \<Rightarrow> now fr - t0 \<ge> TARGET_HOLD))) \<and>
            s3_enter_time t' =
              (if get_state th (py_int (hip_vertical fr)) = Some S3
               then Some (case s3_enter_time t of None \<Rightarrow> now fr | Some t0 \<Rightarrow> t0)
               else None)
       else s3_hold_ok t' = s3_hold_ok t \<and> s3_enter_time t' = s3_enter_time t)) \<and>
    TARGET_HOLD = 5 \<and>
    rep_inv (init_tracker clk) \<and>
    run_frames get_thresholds_leg_raises_beginner scenario_B (init_tracker 0) =
      Inr ((init_tracker (3 / 5))\<lparr> prev_state := Some S1, curr_state := Some S1,
             INCORRECT_COUNT := 2 \<rparr>,
           [Some Incorrect, None, None, None, Some Incorrect])"
proof -
  let ?cs = "get_state th (py_int (hip_vertical fr))"
  from run_frames_rep_inv [OF assms(1), of th pre] assms(2) have inv: "rep_inv t"
    by simp
  from classify_track_range [OF inv, of th fr] obtain u where
    u: "classify_track th fr t = Inr u" by blast
  have a: "\<exists>t' ev. process th fr t = Inr (t', ev) \<and>
      (if hard_reset_fires th fr t \<or> resolves th fr
       then \<not> s3_hold_ok t' \<and> s3_enter_time t' = None
       else if reaches_banners th fr
       then s3_hold_ok t' =
              (s3_hold_ok t \<or>
               (?cs = Some S3 \<and>
                (case s3_enter_time t of None \<Rightarrow> False
                 | Some t0 \<Rightarrow> now fr - t0 \<ge> TARGET_HOLD))) \<and>
            s3_enter_time t' =
              (if ?cs = Some S3
               then Some (case s3_enter_time t of None \<Rightarrow> now fr | Some t0 \<Rightarrow> t0)
               else None)
       else s3_hold_ok t' = s3_hold_ok t \<and> s3_enter_time t' = s3_enter_time t)"
  proof (cases "reaches_banners th fr")
    case r: True
    then have res: "resolves th fr \<longleftrightarrow> ?cs = Some S1"
      by (simp add: resolves_def reaches_banners_def)
    show ?thesis
    proof (cases "hard_reset_fires th fr t")
      case True
      from firing_frame_cleared [OF r u True] True show ?thesis
        by (auto simp: rep_cleared_def)
    next
      case nf: False
      show ?thesis
      proof (cases "?cs = Some S1")
        case True
        with res have "resolves th fr" by simp
        from resolving_frame_cleared [OF this u] True res show ?thesis
          by (auto simp: rep_cleared_def)
      next
        case False
        from nf r have "\<not> (?cs = prev_state t \<and>
            INACTIVE_TIME t + (now fr - start_inactive_time t) \<ge> INACTIVE_THRESH th)"
          by (simp add: hard_reset_fires_def reaches_banners_def)
        from moving_frame [OF r False inv this] nf False res r show ?thesis
          by auto
      qed
    qed
  next
    case False
    then have "\<not> resolves th fr"
      by (auto simp: resolves_def reaches_banners_def)
    with False show ?thesis
      unfolding early_return_frame [OF False]
      by (simp add: hard_reset_all_def reset_live_flags_def)
  qed
  have b: "run_frames get_thresholds_leg_raises_beginner scenario_B (init_tracker 0) =
      Inr ((init_tracker (3 / 5))\<lparr> prev_state := Some S1, curr_state := Some S1,
             INCORRECT_COUNT := 2 \<rparr>,
           [Some Incorrect, None, None, None, Some Incorrect])"
    by code_simp
  have c: "rep_inv (init_tracker clk)"
    by (simp add: rep_inv_def init_tracker_def)
  have d: "TARGET_HOLD = 5"
    by (simp add: TARGET_HOLD_def)
  from a b c d show ?thesis by blast
qed

theorem hold_flag_fixed_target_witness:
  "rep_inv (init_tracker 0) \<and>
   run_frames get_thresholds_leg_raises_beginner hold_short (init_tracker 0) =
     Inr (holding, [None, None, None, None]) \<and>
   s3_enter_time holding = Some (1 / 5) \<and> \<not> s3_hold_ok holding \<and>
   \<not> reaches_banners get_thresholds_leg_raises_beginner (lost_frame 5) \<and>
   \<not> hard_reset_fires get_thresholds_leg_raises_beginner (lost_frame 5) holding \<and>
   (\<exists>t' ev. process get_thresholds_leg_raises_beginner (lost_frame 5) holding = Inr (t', ev) \<and>
      \<not> s3_hold_ok t' \<and> s3_enter_time t' = Some (1 / 5)) \<and>
   run_frames get_thresholds_leg_raises_beginner (hold_short @ [lost_frame 5]) (init_tracker 0) =
     Inr (holding\<lparr> INACTIVE_TIME := 24 / 5, start_inactive_time := 5 \<rparr>,
          [None, None, None, None, None]) \<and>
   reaches_banners get_thresholds_leg_raises_beginner (pose_frame 70 (26 / 5)) \<and>
   \<not> resolves get_thresholds_leg_raises_beginner (pose_frame 70 (26 / 5)) \<and>
   \<not> hard_reset_fires get_thresholds_leg_raises_beginner (pose_frame 70 (26 / 5))
       (holding\<lparr> INACTIVE_TIME := 24 / 5, start_inactive_time := 5 \<rparr>) \<and>
   get_state get_thresholds_leg_raises_beginner (py_int (hip_vertical (pose_frame 70 (26 / 5)))) =
     Some S3 \<and>
   (\<exists>t' ev. process get_thresholds_leg_raises_beginner (pose_frame 70 (26 / 5))
        (holding\<lparr> INACTIVE_TIME := 24 / 5, start_inactive_time := 5 \<rparr>) = Inr (t', ev) \<and>
      s3_hold_ok t' \<and> s3_enter_time t' = Some (1 / 5))"
proof -
  let ?th = get_thresholds_leg_raises_beginner
  let ?fr = "pose_frame 70 (26 / 5)"
  let ?g = "holding\<lparr> INACTIVE_TIME := 24 / 5, start_inactive_time := 5 \<rparr>"
  have i: "rep_inv (init_tracker 0)"
    by code_simp
  have p: "run_frames ?th hold_short (init_tracker 0) = Inr (holding, [None, None, None, None])"
    "run_frames ?th (hold_short @ [lost_frame 5]) (init_tracker 0) =
       Inr (?g, [None, None, None, None, None])"
    by code_simp+
  have l: "\<not> reaches_banners ?th (lost_frame 5)" "\<not> hard_reset_fires ?th (lost_frame 5) holding"
    "\<not> resolves ?th (lost_frame 5)"
    by code_simp+
  have f: "reaches_banners ?th ?fr" "\<not> resolves ?th ?fr" "\<not> hard_reset_fires ?th ?fr ?g"
    "get_state ?th (py_int (hip_vertical ?fr)) = Some S3"
    by code_simp+
  have s: "s3_enter_time holding = Some (1 / 5)" "\<not> s3_hold_ok holding"
    "s3_enter_time ?g = Some (1 / 5)" "\<not> s3_hold_ok ?g"
    "now ?fr - 1 / 5 \<ge> TARGET_HOLD"
    by (simp_all add: holding_def pose_frame_def TARGET_HOLD_def)
  from hold_flag_fixed_target [OF i p(1), THEN conjunct1, of "lost_frame 5"] l s
  have a: "\<exists>t' ev. process ?th (lost_frame 5) holding = Inr (t', ev) \<and>
      \<not> s3_hold_ok t' \<and> s3_enter_time t' = Some (1 / 5)"
    by simp
  from hold_flag_fixed_target [OF i p(2), THEN conjunct1, of ?fr] f s
  have b: "\<exists>t' ev. process ?th ?fr ?g = Inr (t', ev) \<and> s3_hold_ok t' \<and>
      s3_enter_time t' = Some (1 / 5)"
    by simp
  from a b i p l f s show ?thesis by simp
qed

text \<open>
  Claim C2 as stated fails: after the frames of \<open>hold_short\<close> the session has been in s3
  since clock reading 0.2 and the last frame comes 1.2 seconds later, which is at least
  \<^verbatim>\<open>HOLD_SEC\<close> = 1.0 of the profile, yet the hold flag is not set.
\<close>

theorem hold_sec_counterexample:
  "run_frames get_thresholds_leg_raises_beginner hold_short (init_tracker 0) =
     Inr (holding, [None, None, None, None]) \<and>
   curr_state holding = Some S3 \<and>
   s3_enter_time holding = Some (1 / 5) \<and>
   HOLD_SEC get_thresholds_leg_raises_beginner \<le> now (last hold_short) - 1 / 5 \<and>
   \<not> s3_hold_ok holding"
  by code_simp

section \<open>A full rep\<close>

lemma mid_rep_move:
  assumes m: "mid_rep seq c enter hold c0 i0 T0 t"
    and f: "in_state th c' fr" and ns1: "c' \<noteq> S1"
    and stay: "c' = c \<Longrightarrow> now fr - T0 < INACTIVE_THRESH th"
    and form: "c' \<noteq> S3 \<Longrightarrow> good_form th fr"
  shows "\<exists>t'. process th fr t = Inr (t', None) \<and>
     mid_rep (update_state_sequence (Some c') seq) c'
       (if c' = S3 then Some (case enter of None \<Rightarrow> now fr | Some t0 \<Rightarrow> t0) else None)
       (hold \<or> (c' = S3 \<and> (case enter of None \<Rightarrow> False | Some t0 \<Rightarrow> now fr - t0 \<ge> TARGET_HOLD)))
       c0 i0 (if c' = c then T0 else now fr) t' \<and>
     rep_max_angle t' =
       (if S2 \<in> set (update_state_sequence (Some c') seq)
        then Some (case rep_max_angle t of None \<Rightarrow> py_int (hip_vertical fr)
                   | Some mx \<Rightarrow> max mx (py_int (hip_vertical fr)))
        else None)"
proof -
  from f have r: "reaches_banners th fr" and cs: "get_state th (py_int (hip_vertical fr)) = Some c'"
    by (simp_all add: in_state_def)
  from m have mt: "state_seq t = seq" "prev_state t = Some c" "s3_enter_time t = enter"
    "s3_hold_ok t = hold" "\<not> INCORRECT_POSTURE t" "CORRECT_COUNT t = c0" "INCORRECT_COUNT t = i0"
    "start_inactive_time t - INACTIVE_TIME t = T0" "rep_inv t"
    by (simp_all add: mid_rep_def)
  have ns1': "get_state th (py_int (hip_vertical fr)) \<noteq> Some S1"
    using cs ns1 by simp
  have nf: "\<not> (get_state th (py_int (hip_vertical fr)) = prev_state t \<and>
               INACTIVE_TIME t + (now fr - start_inactive_time t) \<ge> INACTIVE_THRESH th)"
  proof
    assume a: "get_state th (py_int (hip_vertical fr)) = prev_state t \<and>
               INACTIVE_TIME t + (now fr - start_inactive_time t) \<ge> INACTIVE_THRESH th"
    with cs mt(2) have "c' = c" by simp
    from stay [OF this] mt(8) a show False by simp
  qed
  from moving_frame [OF r ns1' mt(9) nf, unfolded cs] obtain t' where
    p: "process th fr t = Inr (t', None)"
    and t0: "state_seq t' = update_state_sequence (Some c') (state_seq t)"
      "prev_state t' = Some c'"
      "s3_enter_time t' =
         (if Some c' = Some S3
          then Some (case s3_enter_time t of None \<Rightarrow> now fr | Some t0 \<Rightarrow> t0) else None)"
      "s3_hold_ok t' =
         (s3_hold_ok t \<or>
          (Some c' = Some S3 \<and>
           (case s3_enter_time t of None \<Rightarrow> False | Some t0 \<Rightarrow> now fr - t0 \<ge> TARGET_HOLD)))"
      "INCORRECT_POSTURE t' = (INCORRECT_POSTURE t \<or> (Some c' \<noteq> Some S3 \<and> \<not> good_form th fr))"
      "CORRECT_COUNT t' = CORRECT_COUNT t" "INCORRECT_COUNT t' = INCORRECT_COUNT t"
      "start_inactive_time t' = now fr"
      "INACTIVE_TIME t' =
         (if Some c' = prev_state t then INACTIVE_TIME t + (now fr - start_inactive_time t) else 0)"
      "rep_inv t'"
      "rep_max_angle t' =
         (if S2 \<in> set (state_seq t')
          then Some (case rep_max_angle t of None \<Rightarrow> py_int (hip_vertical fr)
                     | Some mx \<Rightarrow> max mx (py_int (hip_vertical fr)))
          else None)"
    by blast
  note t' = t0 [simplified]
  have timer: "start_inactive_time t' - INACTIVE_TIME t' = (if c' = c then T0 else now fr)"
    using t'(8,9) mt(2,8) by auto
  have post: "\<not> INCORRECT_POSTURE t'"
    using t'(5) mt(5) form by auto
  show ?thesis
    using p t' mt timer post
    by (intro exI [of _ t']) (simp add: mid_rep_def)
qed

lemma max_at_least_step:
  "rep_max_angle t' = Some (case rep_max_angle t of None \<Rightarrow> a | Some mx \<Rightarrow> max mx a) \<Longrightarrow>
     max_at_least lo t \<or> lo \<le> a \<Longrightarrow> max_at_least lo t'"
  by (auto simp: max_at_least_def split: option.splits)

lemma s2_phase_run:
  assumes sq: "update_state_sequence (Some S2) seq = seq" "S2 \<in> set seq"
  shows "mid_rep seq S2 None hold c0 i0 T0 t \<Longrightarrow>
     list_all (\<lambda>fr. in_state th S2 fr \<and> good_form th fr \<and> now fr - T0 < INACTIVE_THRESH th) frs \<Longrightarrow>
     \<exists>t'. run_frames th frs t = Inr (t', replicate (length frs) None) \<and>
          mid_rep seq S2 None hold c0 i0 T0 t' \<and> (max_at_least lo t \<longrightarrow> max_at_least lo t')"
proof (induction frs arbitrary: t)
  case Nil
  then show ?case by simp
next
  case (Cons fr frs)
  from Cons.prems(2) have f: "in_state th S2 fr" "good_form th fr"
    "now fr - T0 < INACTIVE_THRESH th"
    and rest: "list_all (\<lambda>fr. in_state th S2 fr \<and> good_form th fr \<and>
        now fr - T0 < INACTIVE_THRESH th) frs"
    by simp_all
  from mid_rep_move [OF Cons.prems(1) f(1)] f(2,3) sq obtain t1 where
    p: "process th fr t = Inr (t1, None)" and m1: "mid_rep seq S2 None hold c0 i0 T0 t1"
    and mx: "rep_max_angle t1 = Some (case rep_max_angle t of None \<Rightarrow> py_int (hip_vertical fr)
                   | Some mx \<Rightarrow> max mx (py_int (hip_vertical fr)))"
    by auto
  from Cons.IH [OF m1 rest] obtain t' where
    r: "run_frames th frs t1 = Inr (t', replicate (length frs) None)"
    and m': "mid_rep seq S2 None hold c0 i0 T0 t'"
    and mx': "max_at_least lo t1 \<longrightarrow> max_at_least lo t'"
    by blast
  from max_at_least_step [OF mx] mx' have "max_at_least lo t \<longrightarrow> max_at_least lo t'"
    by blast
  with p r m' show ?case by simp
qed

lemma s3_phase_run:
  "mid_rep [S2, S3] S3 (Some T) hold c0 i0 T0 t \<Longrightarrow>
     list_all (\<lambda>fr. in_state th S3 fr \<and> now fr - T0 < INACTIVE_THRESH th) frs \<Longrightarrow>
     \<exists>t'. run_frames th frs t = Inr (t', replicate (length frs) None) \<and>
          mid_rep [S2, S3] S3 (Some T)
            (hold \<or> list_ex (\<lambda>fr. now fr - T \<ge> TARGET_HOLD) frs) c0 i0 T0 t' \<and>
          (max_at_least lo t \<longrightarrow> max_at_least lo t')"
proof (induction frs arbitrary: t hold)
  case Nil
  then show ?case by simp
next
  case (Cons fr frs)
  from Cons.prems(2) have f: "in_state th S3 fr" "now fr - T0 < INACTIVE_THRESH th"
    and rest: "list_all (\<lambda>fr. in_state th S3 fr \<and> now fr - T0 < INACTIVE_THRESH th) frs"
    by simp_all
  have u: "update_state_sequence (Some S3) [S2, S3] = [S2, S3]"
    by (simp add: update_state_sequence_def)
  from mid_rep_move [OF Cons.prems(1) f(1)] f(2) u obtain t1 where
    p: "process th fr t = Inr (t1, None)"
    and m1: "mid_rep [S2, S3] S3 (Some T) (hold \<or> now fr - T \<ge> TARGET_HOLD) c0 i0 T0 t1"
    and mx: "rep_max_angle t1 = Some (case rep_max_angle t of None \<Rightarrow> py_int (hip_vertical fr)
                   | Some mx \<Rightarrow> max mx (py_int (hip_vertical fr)))"
    by auto
  from Cons.IH [OF m1 rest] obtain t' where
    r: "run_frames th frs t1 = Inr (t', replicate (length frs) None)"
    and m': "mid_rep [S2, S3] S3 (Some T)
        ((hold \<or> now fr - T \<ge> TARGET_HOLD) \<or> list_ex (\<lambda>fr. now fr - T \<ge> TARGET_HOLD) frs)
        c0 i0 T0 t'"
    and mx': "max_at_least lo t1 \<longrightarrow> max_at_least lo t'"
    by blast
  from max_at_least_step [OF mx] mx' have "max_at_least lo t \<longrightarrow> max_at_least lo t'"
    by blast
  with p r m' show ?case by (simp add: disj_assoc)
qed

lemma in_state_bounds:
  "in_state th S3 fr \<Longrightarrow> fst (PASS (HIP_KNEE_VERT th)) \<le> py_int (hip_vertical fr)"
  "in_state th S1 fr \<Longrightarrow> py_int (hip_vertical fr) \<le> snd (NORMAL (HIP_KNEE_VERT th))"
  by (auto simp: in_state_def get_state_def Let_def split: if_splits)

lemma s2_phase_full:
  assumes m: "mid_rep seq c enter hold c0 i0 T0 t" and c: "c \<noteq> S2"
    and ph: "phase th S2 frs" and gf: "list_all (good_form th) frs"
    and sq: "update_state_sequence (Some S2) (update_state_sequence (Some S2) seq) =
             update_state_sequence (Some S2) seq"
      "S2 \<in> set (update_state_sequence (Some S2) seq)"
  shows "\<exists>t'. run_frames th frs t = Inr (t', replicate (length frs) None) \<and>
           mid_rep (update_state_sequence (Some S2) seq) S2 None hold c0 i0 (now (hd frs)) t' \<and>
           (max_at_least lo t \<longrightarrow> max_at_least lo t')"
proof -
  from ph obtain fr frs' where frs: "frs = fr # frs'"
    by (cases frs) (simp_all add: phase_def)
  from ph gf have f: "in_state th S2 fr" "good_form th fr"
    and rest: "list_all (\<lambda>f. in_state th S2 f \<and> good_form th f \<and>
        now f - now fr < INACTIVE_THRESH th) frs'"
    by (simp_all add: frs phase_def list_all_iff)
  from mid_rep_move [OF m f(1)] f(2) c sq(2) obtain t1 where
    p: "process th fr t = Inr (t1, None)"
    and m1: "mid_rep (update_state_sequence (Some S2) seq) S2 None hold c0 i0 (now fr) t1"
    and mx: "rep_max_angle t1 = Some (case rep_max_angle t of None \<Rightarrow> py_int (hip_vertical fr)
                   | Some mx \<Rightarrow> max mx (py_int (hip_vertical fr)))"
    by auto
  from s2_phase_run [OF sq m1 rest, of lo] obtain t' where
    r: "run_frames th frs' t1 = Inr (t', replicate (length frs') None)"
    and m': "mid_rep (update_state_sequence (Some S2) seq) S2 None hold c0 i0 (now fr) t'"
    and mx': "max_at_least lo t1 \<longrightarrow> max_at_least lo t'"
    by blast
  from max_at_least_step [OF mx] mx' have "max_at_least lo t \<longrightarrow> max_at_least lo t'"
    by blast
  with p r m' show ?thesis by (simp add: frs)
qed

lemma s3_phase_full:
  assumes m: "mid_rep [S2] S2 None hold c0 i0 T0 t" and ph: "phase th S3 frs"
  shows "\<exists>t'. run_frames th frs t = Inr (t', replicate (length frs) None) \<and>
           mid_rep [S2, S3] S3 (Some (now (hd frs)))
             (hold \<or> list_ex (\<lambda>f. now f - now (hd frs) \<ge> TARGET_HOLD) (tl frs))
             c0 i0 (now (hd frs)) t' \<and>
           max_at_least (fst (PASS (HIP_KNEE_VERT th))) t'"
proof -
  from ph obtain fr frs' where frs: "frs = fr # frs'"
    by (cases frs) (simp_all add: phase_def)
  from ph have f: "in_state th S3 fr"
    and rest: "list_all (\<lambda>f. in_state th S3 f \<and> now f - now fr < INACTIVE_THRESH th) frs'"
    by (simp_all add: frs phase_def)
  have u: "update_state_sequence (Some S3) [S2] = [S2, S3]"
    by (simp add: update_state_sequence_def)
  from mid_rep_move [OF m f] u obtain t1 where
    p: "process th fr t = Inr (t1, None)"
    and m1: "mid_rep [S2, S3] S3 (Some (now fr)) hold c0 i0 (now fr) t1"
    and mx: "rep_max_angle t1 = Some (case rep_max_angle t of None \<Rightarrow> py_int (hip_vertical fr)
                   | Some mx \<Rightarrow> max mx (py_int (hip_vertical fr)))"
    by auto
  from max_at_least_step [OF mx] in_state_bounds(1) [OF f]
  have a1: "max_at_least (fst (PASS (HIP_KNEE_VERT th))) t1" by blast
  from s3_phase_run [OF m1 rest, of "fst (PASS (HIP_KNEE_VERT th))"] a1 obtain t' where
    r: "run_frames th frs' t1 = Inr (t', replicate (length frs') None)"
    and m': "mid_rep [S2, S3] S3 (Some (now fr))
        (hold \<or> list_ex (\<lambda>f. now f - now fr \<ge> TARGET_HOLD) frs') c0 i0 (now fr) t'"
    and mx': "max_at_least (fst (PASS (HIP_KNEE_VERT th))) t'"
    by blast
  with p show ?thesis by (simp add: frs)
qed

lemma closing_frame:
  assumes m: "mid_rep [S2, S3, S2] S2 None True c0 i0 T0 t"
    and mx: "max_at_least (fst (PASS (HIP_KNEE_VERT th))) t"
    and f: "in_state th S1 fr"
    and prof: "snd (NORMAL (HIP_KNEE_VERT th)) + REP_MIN_RANGE th \<le> fst (PASS (HIP_KNEE_VERT th))"
  shows "\<exists>t'. process th fr t = Inr (t', Some (Count (c0 + 1))) \<and>
           CORRECT_COUNT t' = c0 + 1 \<and> INCORRECT_COUNT t' = i0 \<and> rested t'"
proof -
  let ?a = "py_int (hip_vertical fr)"
  from f have r: "resolves th fr" and s1: "get_state th ?a = Some S1"
    by (simp_all add: in_state_def resolves_def reaches_banners_def)
  from m have mt: "state_seq t = [S2, S3, S2]" "prev_state t = Some S2"
    "s3_hold_ok t" "\<not> INCORRECT_POSTURE t" "CORRECT_COUNT t = c0" "INCORRECT_COUNT t = i0"
    "rep_inv t"
    by (simp_all add: mid_rep_def)
  from classify_track_range [OF mt(7), of th fr] obtain u where
    u: "classify_track th fr t = Inr u"
    and umin: "rep_min_angle u =
       (if S2 \<in> set (state_seq u)
        then Some (case rep_min_angle t of None \<Rightarrow> ?a | Some mn \<Rightarrow> min mn ?a) else None)"
    and umax: "rep_max_angle u =
       (if S2 \<in> set (state_seq u)
        then Some (case rep_max_angle t of None \<Rightarrow> ?a | Some mx \<Rightarrow> max mx ?a) else None)"
    by blast
  note ku = classify_track_keeps [OF u]
  note hu = classify_track_hold [OF u]
  from classify_track_s1 [OF u s1] mt(1) have sq: "state_seq u = [S2, S3, S2]" by simp
  from mx obtain hi where hi: "rep_max_angle t = Some hi" "fst (PASS (HIP_KNEE_VERT th)) \<le> hi"
    by (auto simp: max_at_least_def split: option.splits)
  from mt(7) hi obtain lo where lo: "rep_min_angle t = Some lo"
    by (auto simp: rep_inv_def split: option.splits)
  from in_state_bounds(2) [OF f] prof hi(2)
  have rng: "max hi ?a - min lo ?a \<ge> REP_MIN_RANGE th" by simp
  have dc: "drop_check u = u"
    using ku mt(2) by (simp add: drop_check_def)
  have corr: "rep_correct th (drop_check u)"
    unfolding dc using sq ku hu mt umin umax hi lo rng
    by (simp add: rep_correct_def range_ok_def)
  obtain v e where v: "rep_resolution th u = (v, e)"
    by (cases "rep_resolution th u")
  from rep_resolution_counts [OF v] corr ku mt
  have cnt: "CORRECT_COUNT v = c0 + 1" "INCORRECT_COUNT v = i0" "e = Some (Count (c0 + 1))"
    by simp_all
  have kv: "prev_state v = Some S2" "curr_state v = Some S1"
    using rep_resolution_keeps [of th u] v ku mt(2) s1 by simp_all
  have cl: "rep_cleared v"
    using rep_resolution_cleared [of th u] v by simp
  let ?w = "fst (side_inactivity th fr (v, e))"
  have w: "snd (side_inactivity th fr (v, e)) = e" "CORRECT_COUNT ?w = CORRECT_COUNT v"
    "INCORRECT_COUNT ?w = INCORRECT_COUNT v" "state_seq ?w = state_seq v"
    "rep_min_angle ?w = rep_min_angle v" "rep_max_angle ?w = rep_max_angle v"
    "s3_enter_time ?w = s3_enter_time v" "s3_hold_ok ?w = s3_hold_ok v"
    "INCORRECT_POSTURE ?w = INCORRECT_POSTURE v"
    using kv by (simp_all add: side_inactivity_cases)
  show ?thesis
    unfolding process_resolves [OF r u] v
    using w cnt cl
    by (simp add: banner_ttl_fields rested_def rep_cleared_def)
qed

lemma full_rep:
  assumes t: "rested t"
    and up: "phase th S2 up" "list_all (good_form th) up"
    and peak: "phase th S3 peak" "list_ex (\<lambda>fr. now fr - now (hd peak) \<ge> TARGET_HOLD) (tl peak)"
    and down: "phase th S2 down" "list_all (good_form th) down"
    and rest: "in_state th S1 rest"
    and prof: "snd (NORMAL (HIP_KNEE_VERT th)) + REP_MIN_RANGE th \<le> fst (PASS (HIP_KNEE_VERT th))"
  shows "\<exists>t'. run_frames th (up @ peak @ down @ [rest]) t =
           Inr (t', replicate (length up + length peak + length down) None @
                    [Some (Count (CORRECT_COUNT t + 1))]) \<and>
         CORRECT_COUNT t' = CORRECT_COUNT t + 1 \<and> INCORRECT_COUNT t' = INCORRECT_COUNT t \<and>
         rested t'"
proof -
  let ?c0 = "CORRECT_COUNT t" and ?i0 = "INCORRECT_COUNT t"
  let ?lo = "fst (PASS (HIP_KNEE_VERT th))"
  from t have m0: "mid_rep [] S1 None False ?c0 ?i0
      (start_inactive_time t - INACTIVE_TIME t) t"
    by (simp add: rested_def mid_rep_def rep_inv_def)
  have u1: "update_state_sequence (Some S2) [] = [S2]"
    "update_state_sequence (Some S2) [S2] = [S2]" "S2 \<in> set [S2]"
    by (simp_all add: update_state_sequence_def)
  from s2_phase_full [OF m0 _ up, of ?lo] u1 obtain t1 where
    r1: "run_frames th up t = Inr (t1, replicate (length up) None)"
    and m1: "mid_rep [S2] S2 None False ?c0 ?i0 (now (hd up)) t1"
    by auto
  from s3_phase_full [OF m1 peak(1)] peak(2) obtain t2 where
    r2: "run_frames th peak t1 = Inr (t2, replicate (length peak) None)"
    and m2: "mid_rep [S2, S3] S3 (Some (now (hd peak))) True ?c0 ?i0 (now (hd peak)) t2"
    and x2: "max_at_least ?lo t2"
    by auto
  have u3: "update_state_sequence (Some S2) [S2, S3] = [S2, S3, S2]"
    "update_state_sequence (Some S2) [S2, S3, S2] = [S2, S3, S2]" "S2 \<in> set [S2, S3, S2]"
    by (simp_all add: update_state_sequence_def)
  from s2_phase_full [OF m2 _ down, of ?lo] u3 x2 obtain t3 where
    r3: "run_frames th down t2 = Inr (t3, replicate (length down) None)"
    and m3: "mid_rep [S2, S3, S2] S2 None True ?c0 ?i0 (now (hd down)) t3"
    and x3: "max_at_least ?lo t3"
    by auto
  from closing_frame [OF m3 x3 rest prof] obtain t' where
    p: "process th rest t3 = Inr (t', Some (Count (?c0 + 1)))"
    and c: "CORRECT_COUNT t' = ?c0 + 1" "INCORRECT_COUNT t' = ?i0" "rested t'"
    by blast
  have "run_frames th (up @ peak @ down @ [rest]) t =
      Inr (t', replicate (length up) None @ replicate (length peak) None @
               replicate (length down) None @ [Some (Count (?c0 + 1))])"
    using r1 r2 r3 p by (simp add: run_frames_append)
  with c show ?thesis
    by (simp add: replicate_add)
qed

text \<open>
  Claim C1, as amended. Under the leg-raise-beginner profile, take a session at rest (the
  previous state is s1 and no rep is open) and a run of frames, all with landmarks and
  aligned, made of: one or more frames classified s2 without form violation; one or more
  frames classified s3, one of them (after the first) at least \<^verbatim>\<open>TARGET_HOLD\<close> = 5 seconds
  after the first; one or more frames classified s2 without form violation; one frame
  classified s1; each phase lasting less than \<^verbatim>\<open>INACTIVE_THRESH\<close>. Processing the run
  returns, emits no event before the last frame and the new count on the last frame,
  increases the correct count by exactly 1 and leaves the incorrect count unchanged. The
  range requirement needs no hypothesis: the PASS band starts at 61 and the NORMAL band
  ends at 15, and 61 - 15 is at least \<^verbatim>\<open>REP_MIN_RANGE\<close> = 35. In particular, take Scenario
  A with the third frame at 70 degrees 5 seconds after the first, from the initial state.
  Its two leading frames at 5 degrees are each resolved as an incorrect rep and leave the
  session at rest (state \<open>after_rest\<close>); its other seven frames are a run as above (one
  frame at 30 degrees, four at 70, one at 30 and one at 5). The whole run emits the
  incorrect event twice, then no event six times, then the count 1 on its last frame, and
  ends with the correct count 1 and the incorrect count 2: exactly one correct rep.
\<close>

theorem full_rep_counts:
  assumes "rested t"
    and "phase get_thresholds_leg_raises_beginner S2 up"
    and "list_all (good_form get_thresholds_leg_raises_beginner) up"
    and "phase get_thresholds_leg_raises_beginner S3 peak"
    and "list_ex (\<lambda>fr. now fr - now (hd peak) \<ge> TARGET_HOLD) (tl peak)"
    and "phase get_thresholds_leg_raises_beginner S2 down"
    and "list_all (good_form get_thresholds_leg_raises_beginner) down"
    and "in_state get_thresholds_leg_raises_beginner S1 rest"
  shows "(\<exists>t'. run_frames get_thresholds_leg_raises_beginner (up @ peak @ down @ [rest]) t =
             Inr (t', replicate (length up + length peak + length down) None @
                      [Some (Count (CORRECT_COUNT t + 1))]) \<and>
           CORRECT_COUNT t' = CORRECT_COUNT t + 1 \<and>
           INCORRECT_COUNT t' = INCORRECT_COUNT t) \<and>
         TARGET_HOLD = 5 \<and>
         run_frames get_thresholds_leg_raises_beginner [pose_frame 5 0, pose_frame 5 (1 / 10)]
           (init_tracker 0) = Inr (after_rest, [Some Incorrect, Some Incorrect]) \<and>
         rested after_rest \<and>
         scenario_A 5 =
           [pose_frame 5 0, pose_frame 5 (1 / 10)] @
           [pose_frame 30 (2 / 10)] @
           [pose_frame 70 (3 / 10), pose_frame 70 (7 / 10), pose_frame 70 (53 / 10),
            pose_frame 70 (54 / 10)] @
           [pose_frame 30 (55 / 10)] @ [pose_frame 5 (56 / 10)] \<and>
         (phase get_thresholds_leg_raises_beginner S2 [pose_frame 30 (2 / 10)] \<and>
          list_all (good_form get_thresholds_leg_raises_beginner) [pose_frame 30 (2 / 10)] \<and>
          phase get_thresholds_leg_raises_beginner S3
            [pose_frame 70 (3 / 10), pose_frame 70 (7 / 10), pose_frame 70 (53 / 10),
             pose_frame 70 (54 / 10)] \<and>
          list_ex (\<lambda>fr. now fr - now (pose_frame 70 (3 / 10)) \<ge> TARGET_HOLD)
            [pose_frame 70 (7 / 10), pose_frame 70 (53 / 10), pose_frame 70 (54 / 10)] \<and>
          phase get_thresholds_leg_raises_beginner S2 [pose_frame 30 (55 / 10)] \<and>
          list_all (good_form get_thresholds_leg_raises_beginner) [pose_frame 30 (55 / 10)] \<and>
          in_state get_thresholds_leg_raises_beginner S1 (pose_frame 5 (56 / 10))) \<and>
         run_frames get_thresholds_leg_raises_beginner (scenario_A 5) (init_tracker 0) =
           Inr ((init_tracker (28 / 5))\<lparr> prev_state := Some S1, curr_state := Some S1,
                  CORRECT_COUNT := 1, INCORRECT_COUNT := 2 \<rparr>,
                [Some Incorrect, Some Incorrect, None, None, None, None, None, None,
                 Some (Count 1)])"
proof -
  let ?th = get_thresholds_leg_raises_beginner
  have prof: "snd (NORMAL (HIP_KNEE_VERT ?th)) + REP_MIN_RANGE ?th \<le> fst (PASS (HIP_KNEE_VERT ?th))"
    by (simp add: get_thresholds_leg_raises_beginner_def)
  from full_rep [OF assms prof]
  have a: "\<exists>t'. run_frames ?th (up @ peak @ down @ [rest]) t =
             Inr (t', replicate (length up + length peak + length down) None @
                      [Some (Count (CORRECT_COUNT t + 1))]) \<and>
           CORRECT_COUNT t' = CORRECT_COUNT t + 1 \<and>
           INCORRECT_COUNT t' = INCORRECT_COUNT t"
    by blast
  have b: "run_frames ?th (scenario_A 5) (init_tracker 0) =
      Inr ((init_tracker (28 / 5))\<lparr> prev_state := Some S1, curr_state := Some S1,
             CORRECT_COUNT := 1, INCORRECT_COUNT := 2 \<rparr>,
           [Some Incorrect, Some Incorrect, None, None, None, None, None, None, Some (Count 1)])"
    by code_simp
  have c: "run_frames ?th [pose_frame 5 0, pose_frame 5 (1 / 10)] (init_tracker 0) =
      Inr (after_rest, [Some Incorrect, Some Incorrect])"
    "rested after_rest"
    by code_simp+
  have d: "scenario_A 5 =
           [pose_frame 5 0, pose_frame 5 (1 / 10)] @
           [pose_frame 30 (2 / 10)] @
           [pose_frame 70 (3 / 10), pose_frame 70 (7 / 10), pose_frame 70 (53 / 10),
            pose_frame 70 (54 / 10)] @
           [pose_frame 30 (55 / 10)] @ [pose_frame 5 (56 / 10)]"
    by (simp add: scenario_A_def)
  have e: "TARGET_HOLD = 5"
    by (simp add: TARGET_HOLD_def)
  have f: "phase ?th S2 [pose_frame 30 (2 / 10)]"
    "list_all (good_form ?th) [pose_frame 30 (2 / 10)]"
    "phase ?th S3 [pose_frame 70 (3 / 10), pose_frame 70 (7 / 10), pose_frame 70 (53 / 10),
       pose_frame 70 (54 / 10)]"
    "list_ex (\<lambda>fr. now fr - now (pose_frame 70 (3 / 10)) \<ge> TARGET_HOLD)
       [pose_frame 70 (7 / 10), pose_frame 70 (53 / 10), pose_frame 70 (54 / 10)]"
    "phase ?th S2 [pose_frame 30 (55 / 10)]"
    "list_all (good_form ?th) [pose_frame 30 (55 / 10)]"
    "in_state ?th S1 (pose_frame 5 (56 / 10))"
    by code_simp+
  from a b c d e f show ?thesis by blast
qed

theorem full_rep_counts_witness:
  "rested after_rest \<and>
   phase get_thresholds_leg_raises_beginner S2 [pose_frame 30 (2 / 10)] \<and>
   list_all (good_form get_thresholds_leg_raises_beginner) [pose_frame 30 (2 / 10)] \<and>
   phase get_thresholds_leg_raises_beginner S3
     [pose_frame 70 (3 / 10), pose_frame 70 (7 / 10), pose_frame 70 (53 / 10),
      pose_frame 70 (54 / 10)] \<and>
   phase get_thresholds_leg_raises_beginner S2 [pose_frame 30 (55 / 10)] \<and>
   in_state get_thresholds_leg_raises_beginner S1 (pose_frame 5 (56 / 10)) \<and>
   (\<exists>t'. run_frames get_thresholds_leg_raises_beginner
            ([pose_frame 30 (2 / 10)] @
             [pose_frame 70 (3 / 10), pose_frame 70 (7 / 10), pose_frame 70 (53 / 10),
              pose_frame 70 (54 / 10)] @
             [pose_frame 30 (55 / 10)] @ [pose_frame 5 (56 / 10)]) after_rest =
           Inr (t', replicate 6 None @ [Some (Count 1)]) \<and>
         CORRECT_COUNT t' = 1 \<and> INCORRECT_COUNT t' = 2)"
proof -
  let ?th = get_thresholds_leg_raises_beginner
  let ?up = "[pose_frame 30 (2 / 10)]"
  let ?peak = "[pose_frame 70 (3 / 10), pose_frame 70 (7 / 10), pose_frame 70 (53 / 10),
      pose_frame 70 (54 / 10)]"
  let ?down = "[pose_frame 30 (55 / 10)]"
  let ?rest = "pose_frame 5 (56 / 10)"
  have h: "rested after_rest" "phase ?th S2 ?up" "list_all (good_form ?th) ?up"
    "phase ?th S3 ?peak" "list_ex (\<lambda>fr. now fr - now (hd ?peak) \<ge> TARGET_HOLD) (tl ?peak)"
    "phase ?th S2 ?down" "list_all (good_form ?th) ?down" "in_state ?th S1 ?rest"
    by code_simp+
  have c: "CORRECT_COUNT after_rest = 0" "INCORRECT_COUNT after_rest = 2"
    by (simp_all add: after_rest_def)
  from full_rep_counts [OF h, THEN conjunct1] c
  have "\<exists>t'. run_frames ?th (?up @ ?peak @ ?down @ [?rest]) after_rest =
           Inr (t', replicate 6 None @ [Some (Count 1)]) \<and>
         CORRECT_COUNT t' = 1 \<and> INCORRECT_COUNT t' = 2"
    by (simp add: numeral_eq_Suc)
  with h show ?thesis by simp
qed

text \<open>
  Claim C1 as stated fails: in Scenario A with a dwell of 1.2 seconds in s3 (which is at
  least \<^verbatim>\<open>HOLD_SEC\<close> = 1.0) the frames are classified s1, s1, s2, s3, s3, s3, s3, s2, s1
  without form violation and the range is 65, yet the correct count stays 0 and the last
  frame resolves as incorrect.
\<close>

theorem short_hold_counterexample:
  "run_frames get_thresholds_leg_raises_beginner (scenario_A (6 / 5)) (init_tracker 0) =
     Inr ((init_tracker (9 / 5))\<lparr> prev_state := Some S1, curr_state := Some S1,
            CORRECT_COUNT := 0, INCORRECT_COUNT := 3 \<rparr>,
          [Some Incorrect, Some Incorrect, None, None, None, None, None, None, Some Incorrect]) \<and>
   HOLD_SEC get_thresholds_leg_raises_beginner \<le> 6 / 5 \<and>
   REP_MIN_RANGE get_thresholds_leg_raises_beginner \<le> 70 - 5 \<and>
   list_all (good_form get_thresholds_leg_raises_beginner) (scenario_A (6 / 5)) \<and>
   map (frame_class get_thresholds_leg_raises_beginner) (scenario_A (6 / 5)) =
     [Some S1, Some S1, Some S2, Some S3, Some S3, Some S3, Some S3, Some S2, Some S1]"
  by code_simp

end
